theory Spec2Isabelle
  imports Complex_Main "HOL-Library.Log_Nat"
begin

section \<open>Errors and the random source\<close>

text \<open>
  The two scripts (\<^verbatim>\<open>Sampledata.py\<close>, the variant with intentional data-quality defects,
  and \<^verbatim>\<open>scripts/generate_pure_sample_data.py\<close>, the clean variant) read Python's
  process-wide random generator. The model threads the generator through every call: a
  random source is the infinite sequence of the raw draws still to come, and every call of
  \<^verbatim>\<open>random.random\<close>, \<^verbatim>\<open>random.randint\<close>, \<^verbatim>\<open>random.choice\<close> and
  \<^verbatim>\<open>random.uniform\<close> consumes exactly one raw draw and maps it onto its range.
  A Python exception is a value \<open>Inl e\<close>.
\<close>

datatype error = IndexError | KeyError | ValueError | OverflowError

type_synonym rng = "nat \<Rightarrow> nat"

type_synonym 'a gen = "rng \<Rightarrow> error + ('a \<times> rng)"

definition greturn :: "'a \<Rightarrow> 'a gen" where
  "greturn x r = Inr (x, r)"

definition graise :: "error \<Rightarrow> 'a gen" where
  "graise e r = Inl e"

definition gbind :: "'a gen \<Rightarrow> ('a \<Rightarrow> 'b gen) \<Rightarrow> 'b gen" where
  "gbind m f r = (case m r of Inl e \<Rightarrow> Inl e | Inr (x, r') \<Rightarrow> f x r')"

definition lift :: "error + 'a \<Rightarrow> 'a gen" where
  "lift v r = (case v of Inl e \<Rightarrow> Inl e | Inr x \<Rightarrow> Inr (x, r))"

definition draw :: "nat gen" where
  "draw r = Inr (r 0, (\<lambda>n. r (Suc n)))"

section \<open>Python floats\<close>

text \<open>
  A finite Python float is a rational number; \<open>to_double\<close> rounds a rational to the
  nearest number with a 53-bit significand, ties to even, which is what every float
  operation of the scripts does to its exact result. Signed zeros, infinities, NaN and
  subnormal precision are not represented: the generated values stay far inside the normal
  range.
\<close>

definition round_half_even :: "rat \<Rightarrow> int" where
  "round_half_even x =
     (let f = \<lfloor>x\<rfloor>; d = x - of_int f
      in if d < 1 / 2 then f else if 1 / 2 < d then f + 1 else if even f then f else f + 1)"

definition ilog2 :: "rat \<Rightarrow> int" where
  "ilog2 x =
     (let p = fst (quotient_of x); q = snd (quotient_of x); d = bitlen p - bitlen q
      in if power_int 2 d \<le> x then d else d - 1)"

definition to_double :: "rat \<Rightarrow> rat" where
  "to_double x =
     (if x = 0 then 0
      else let e = ilog2 \<bar>x\<bar> - 52
           in sgn x * of_int (round_half_even (\<bar>x\<bar> / power_int 2 e)) * power_int 2 e)"

definition fadd :: "rat \<Rightarrow> rat \<Rightarrow> rat" where
  "fadd x y = to_double (x + y)"

definition fsub :: "rat \<Rightarrow> rat \<Rightarrow> rat" where
  "fsub x y = to_double (x - y)"

definition fmul :: "rat \<Rightarrow> rat \<Rightarrow> rat" where
  "fmul x y = to_double (x * y)"

section \<open>The random module\<close>

text \<open>
  \<^verbatim>\<open>random.random()\<close> is a multiple of \<open>2\<^sup>-\<^sup>5\<^sup>3\<close> in \<open>[0, 1)\<close>. The scripts compare it
  with the float literals 0.01, 0.03, 0.05, 0.10, 0.15 and 0.20; on the grid of multiples
  of \<open>2\<^sup>-\<^sup>5\<^sup>3\<close> each comparison has the same answer for the float literal and for the
  decimal fraction, so the model compares with the fraction.
\<close>

definition random_of_draw :: "nat \<Rightarrow> rat" where
  "random_of_draw k = of_nat (k mod 2 ^ 53) / 2 ^ 53"

definition random :: "rat gen" where
  "random = gbind draw (\<lambda>k. greturn (random_of_draw k))"

definition randint :: "int \<Rightarrow> int \<Rightarrow> int gen" where
  "randint a b =
     (if b < a then graise ValueError
      else gbind draw (\<lambda>k. greturn (a + int k mod (b - a + 1))))"

definition choice :: "'a list \<Rightarrow> 'a gen" where
  "choice xs =
     (if xs = [] then graise IndexError
      else gbind draw (\<lambda>k. greturn (xs ! (k mod length xs))))"

definition uniform :: "rat \<Rightarrow> rat \<Rightarrow> rat gen" where
  "uniform a b = gbind random (\<lambda>u. greturn (fadd a (fmul (fsub b a) u)))"

section \<open>Strings\<close>

definition digit_char :: "nat \<Rightarrow> char" where
  "digit_char d = ''0123456789'' ! d"

fun str_nat :: "nat \<Rightarrow> string" where
  "str_nat n = (if n < 10 then [digit_char n] else str_nat (n div 10) @ [digit_char (n mod 10)])"

declare str_nat.simps [simp del]

definition str_int :: "int \<Rightarrow> string" where
  "str_int i = (if i < 0 then CHR ''-'' # str_nat (nat (- i)) else str_nat (nat i))"

definition zfill :: "nat \<Rightarrow> string \<Rightarrow> string" where
  "zfill w s = replicate (w - length s) CHR ''0'' @ s"

definition lower_char :: "char \<Rightarrow> char" where
  "lower_char c =
     (case map_of (zip ''ABCDEFGHIJKLMNOPQRSTUVWXYZ'' ''abcdefghijklmnopqrstuvwxyz'') c of
        Some l \<Rightarrow> l
      | None \<Rightarrow> c)"

definition lower :: "string \<Rightarrow> string" where
  "lower s = map lower_char s"

text \<open>\<^verbatim>\<open>f"{x:.pf}"\<close>: the exact value rounded half-even to \<open>p\<close> decimals.\<close>

definition format_f :: "nat \<Rightarrow> rat \<Rightarrow> string" where
  "format_f p x =
     (let n = nat (round_half_even (\<bar>x\<bar> * 10 ^ p))
      in (if x < 0 then ''-'' else '''') @ str_nat (n div 10 ^ p) @ ''.''
           @ zfill p (str_nat (n mod 10 ^ p)))"

section \<open>Dates\<close>

text \<open>
  \<^verbatim>\<open>datetime\<close> values of the scripts are all at midnight, so a date is its year, month
  and day. The calendar arithmetic is the one of Python's \<^verbatim>\<open>datetime\<close> module
  (\<^verbatim>\<open>_ymd2ord\<close>, \<^verbatim>\<open>_ord2ymd\<close>): day 1 is 0001-01-01, the last day is 9999-12-31, and
  adding a \<^verbatim>\<open>timedelta\<close> that leaves this range raises \<^verbatim>\<open>OverflowError\<close>.
  \<^verbatim>\<open>strftime("%Y-%m-%d")\<close> is modelled with a year of four digits (years below 1000 are
  printed without padding by some C libraries; the scripts stay between 1930 and 2028).
\<close>

type_synonym date = "int \<times> int \<times> int"

definition DAYS_IN_MONTH :: "int list" where
  "DAYS_IN_MONTH = [-1, 31, 28, 31, 30, 31, 30, 31, 31, 30, 31, 30, 31]"

definition DAYS_BEFORE_MONTH :: "int list" where
  "DAYS_BEFORE_MONTH = [-1, 0, 31, 59, 90, 120, 151, 181, 212, 243, 273, 304, 334]"

definition is_leap :: "int \<Rightarrow> bool" where
  "is_leap y = (y mod 4 = 0 \<and> (y mod 100 \<noteq> 0 \<or> y mod 400 = 0))"

definition days_before_year :: "int \<Rightarrow> int" where
  "days_before_year yr = (let y = yr - 1 in y * 365 + y div 4 - y div 100 + y div 400)"

definition days_before_month :: "int \<Rightarrow> int \<Rightarrow> int" where
  "days_before_month y m = DAYS_BEFORE_MONTH ! nat m + (if 2 < m \<and> is_leap y then 1 else 0)"

definition ymd2ord :: "date \<Rightarrow> int" where
  "ymd2ord dt = (case dt of (y, m, d) \<Rightarrow> days_before_year y + days_before_month y m + d)"

definition ord2ymd :: "int \<Rightarrow> date" where
  "ord2ymd ordinal =
     (let n = ordinal - 1;
          n400 = n div 146097; na = n mod 146097;
          n100 = na div 36524; nb = na mod 36524;
          n4 = nb div 1461; nc = nb mod 1461;
          n1 = nc div 365; nd = nc mod 365;
          y = n400 * 400 + 1 + n100 * 100 + n4 * 4 + n1
      in if n1 = 4 \<or> n100 = 4 then (y - 1, 12, 31)
         else
           let leapyear = (n1 = 3 \<and> (n4 \<noteq> 24 \<or> n100 = 3));
               month = (nd + 50) div 32;
               preceding = DAYS_BEFORE_MONTH ! nat month + (if 2 < month \<and> leapyear then 1 else 0)
           in if nd < preceding
              then (y, month - 1,
                    nd - (preceding - (DAYS_IN_MONTH ! nat (month - 1)
                                       + (if month - 1 = 2 \<and> leapyear then 1 else 0))) + 1)
              else (y, month, nd - preceding + 1))"

definition MAXORDINAL :: int where
  "MAXORDINAL = 3652059"

definition date_plus_days :: "date \<Rightarrow> int \<Rightarrow> error + date" where
  "date_plus_days dt k =
     (let n = ymd2ord dt + k
      in if 1 \<le> n \<and> n \<le> MAXORDINAL then Inr (ord2ymd n) else Inl OverflowError)"

definition strftime :: "date \<Rightarrow> string" where
  "strftime dt =
     (case dt of (y, m, d) \<Rightarrow>
        zfill 4 (str_int y) @ ''-'' @ zfill 2 (str_int m) @ ''-'' @ zfill 2 (str_int d))"

definition TODAY :: date where
  "TODAY = (2026, 1, 22)"

section \<open>Records as dictionaries\<close>

text \<open>
  Every entity is a Python dict from field names to strings, built by a dict literal; the
  model keeps it as the list of its items in the literal's order. \<open>getitem\<close> is
  \<^verbatim>\<open>d[k]\<close>, which raises \<^verbatim>\<open>KeyError\<close> on a missing key.
\<close>

type_synonym pydict = "(string \<times> string) list"

definition getitem :: "pydict \<Rightarrow> string \<Rightarrow> error + string" where
  "getitem d k = (case map_of d k of None \<Rightarrow> Inl KeyError | Some v \<Rightarrow> Inr v)"

text \<open>
  \<^verbatim>\<open>float(s)\<close> for a plain decimal literal (an optional minus sign, digits, and an optional
  point followed by digits), correctly rounded. Every string the generators store in a
  \<^verbatim>\<open>balance\<close> field has this shape. Every other string is \<^verbatim>\<open>ValueError\<close> in the
  model. Python itself also accepts a leading point, exponents, underscores, surrounding
  blanks, the special values and a negative zero; no record of these scripts holds one, and
  the theorems below about \<^verbatim>\<open>float\<close> are stated for balances of the generated shape.
\<close>

definition is_digit :: "char \<Rightarrow> bool" where
  "is_digit c = (c \<in> set ''0123456789'')"

definition digit_val :: "char \<Rightarrow> nat" where
  "digit_val c = (case map_of (zip ''0123456789'' [0 ..< 10]) c of Some d \<Rightarrow> d | None \<Rightarrow> 0)"

definition nat_of_digits :: "string \<Rightarrow> nat" where
  "nat_of_digits s = foldl (\<lambda>acc c. 10 * acc + digit_val c) 0 s"

definition parse_decimal :: "string \<Rightarrow> rat option" where
  "parse_decimal s =
     (let ip = takeWhile is_digit s; rest = drop (length ip) s
      in if ip = [] then None
         else if rest = [] then Some (of_nat (nat_of_digits ip))
         else if hd rest = CHR ''.'' \<and> list_all is_digit (tl rest)
         then Some (of_nat (nat_of_digits ip)
                    + of_nat (nat_of_digits (tl rest)) / 10 ^ length (tl rest))
         else None)"

definition py_float :: "string \<Rightarrow> error + rat" where
  "py_float s =
     (case s of
        [] \<Rightarrow> Inl ValueError
      | c # cs \<Rightarrow>
          if c = CHR ''-''
          then (case parse_decimal cs of None \<Rightarrow> Inl ValueError
                | Some v \<Rightarrow> if v = 0 then Inl ValueError else Inr (to_double (- v)))
          else (case parse_decimal s of None \<Rightarrow> Inl ValueError | Some v \<Rightarrow> Inr (to_double v)))"

section \<open>Sample data pools\<close>

definition FIRST_NAMES :: "string list" where
  "FIRST_NAMES = [''John'', ''Jane'', ''Michael'', ''Sarah'', ''David'', ''Emma'', ''Robert'',
     ''Lisa'', ''William'', ''Mary'', ''James'', ''Patricia'', ''Richard'', ''Jennifer'',
     ''Thomas'', ''Linda'', ''Charles'', ''Barbara'']"

definition LAST_NAMES :: "string list" where
  "LAST_NAMES = [''Smith'', ''Johnson'', ''Williams'', ''Brown'', ''Jones'', ''Garcia'',
     ''Miller'', ''Davis'', ''Rodriguez'', ''Martinez'', ''Hernandez'', ''Lopez'', ''Gonzalez'',
     ''Wilson'', ''Anderson'', ''Thomas'', ''Taylor'', ''Moore'']"

definition COUNTRIES :: "string list" where
  "COUNTRIES = [''USA'', ''UK'', ''Canada'', ''Australia'', ''Germany'', ''France'', ''Spain'',
     ''Italy'', ''Japan'', ''India'']"

definition KYC_STATUSES :: "string list" where
  "KYC_STATUSES = [''VERIFIED'', ''PENDING'', ''REJECTED'', ''EXPIRED'', ''NOT_STARTED'']"

definition ACCOUNT_TYPES :: "string list" where
  "ACCOUNT_TYPES = [''SAVINGS'', ''CHECKING'', ''CREDIT'', ''INVESTMENT'', ''LOAN'']"

definition TRANSACTION_TYPES :: "string list" where
  "TRANSACTION_TYPES = [''DEPOSIT'', ''WITHDRAWAL'', ''TRANSFER'', ''PAYMENT'', ''FEE'',
     ''INTEREST'']"

definition CURRENCIES :: "string list" where
  "CURRENCIES = [''USD'', ''EUR'', ''GBP'', ''JPY'', ''CAD'', ''AUD'', ''CHF'', ''CNY'']"

text \<open>The list literals that the generators pass to \<^verbatim>\<open>random.choice\<close> in place.\<close>

definition EMAIL_DOMAINS :: "string list" where
  "EMAIL_DOMAINS = [''gmail.com'', ''yahoo.com'', ''outlook.com'', ''company.com'']"

definition ACCOUNT_STATUSES :: "string list" where
  "ACCOUNT_STATUSES = [''ACTIVE'', ''CLOSED'', ''SUSPENDED'', ''PENDING'']"

definition CHANNELS :: "string list" where
  "CHANNELS = [''Online'', ''ATM'', ''Branch'', ''Mobile'']"

definition TRANSACTION_STATUSES :: "string list" where
  "TRANSACTION_STATUSES = [''COMPLETED'', ''PENDING'', ''FAILED'', ''REVERSED'']"

definition FX_SOURCES :: "string list" where
  "FX_SOURCES = [''CENTRAL_BANK'', ''MARKET'', ''MANUAL'']"

definition BAD_PHONES :: "string list" where
  "BAD_PHONES = [''123'', ''12345678901234567890'', ''ABC-DEF-GHIJ'', []]"

definition BAD_DATES :: "string list" where
  "BAD_DATES = [''2026-13-45'', ''NOT_A_DATE'', ''2099-12-31'', []]"

definition BAD_RATES :: "string list" where
  "BAD_RATES = [[], ''-1.0'', ''999999.0'']"

definition bad_emails :: "string \<Rightarrow> string \<Rightarrow> string list" where
  "bad_emails first_name last_name =
     [lower first_name @ ''@'',
      lower first_name @ ''.'' @ lower last_name,
      lower first_name @ ''@invalid'',
      []]"

text \<open>\<^verbatim>\<open>base_rates\<close> of \<^verbatim>\<open>generate_fx_rates\<close>, in the dict's insertion order.\<close>

definition BASE_RATES :: "(string \<times> rat) list" where
  "BASE_RATES = [(''EUR'', to_double (110 / 100)), (''GBP'', to_double (127 / 100)),
     (''JPY'', to_double (91 / 10000)), (''CAD'', to_double (74 / 100)),
     (''AUD'', to_double (66 / 100)), (''CHF'', to_double (112 / 100)),
     (''CNY'', to_double (14 / 100))]"

section \<open>Loops and conditional draws\<close>

text \<open>
  \<^verbatim>\<open>xs = []; for i in range(n): xs.append(body(i)); return xs\<close>, started at index \<open>i\<close>
  with the list built so far.
\<close>

fun for_loop :: "nat \<Rightarrow> nat \<Rightarrow> (nat \<Rightarrow> 'a gen) \<Rightarrow> 'a list \<Rightarrow> 'a list gen" where
  "for_loop i 0 body acc = greturn acc"
| "for_loop i (Suc n) body acc = gbind (body i) (\<lambda>x. for_loop (Suc i) n body (acc @ [x]))"

definition for_range :: "int \<Rightarrow> (nat \<Rightarrow> 'a gen) \<Rightarrow> 'a list gen" where
  "for_range count body = for_loop 0 (nat count) body []"

text \<open>\<^verbatim>\<open>add_issue and random.random() < p\<close>: the draw is made only when \<open>add_issue\<close> holds.\<close>

definition and_random_below :: "bool \<Rightarrow> rat \<Rightarrow> bool gen" where
  "and_random_below add_issue p =
     (if add_issue then gbind random (\<lambda>u. greturn (u < p)) else greturn False)"

text \<open>\<^verbatim>\<open>x if random.random() > p else ""\<close>.\<close>

definition keep_if_random_above :: "rat \<Rightarrow> string \<Rightarrow> string gen" where
  "keep_if_random_above p x = gbind random (\<lambda>u. greturn (if p < u then x else []))"

text \<open>\<^verbatim>\<open>int(x)\<close> of a float: truncation towards zero; an infinite float raises.\<close>

definition int_of_float :: "rat \<Rightarrow> error + int" where
  "int_of_float x =
     (if 2 ^ 1024 \<le> \<bar>x\<bar> then Inl OverflowError
      else Inr (if 0 \<le> x then \<lfloor>x\<rfloor> else \<lceil>x\<rceil>))"

section \<open>The defect variant: \<^verbatim>\<open>Sampledata.py\<close>\<close>

subsection \<open>Field generators\<close>

definition generate_email :: "string \<Rightarrow> string \<Rightarrow> bool \<Rightarrow> string gen" where
  "generate_email first_name last_name add_issue =
     gbind (and_random_below add_issue (15 / 100)) (\<lambda>bad.
       if bad then choice (bad_emails first_name last_name)
       else gbind (choice EMAIL_DOMAINS) (\<lambda>domain.
              greturn (lower first_name @ ''.'' @ lower last_name @ ''@'' @ domain)))"

definition generate_phone :: "bool \<Rightarrow> string gen" where
  "generate_phone add_issue =
     gbind (and_random_below add_issue (10 / 100)) (\<lambda>bad.
       if bad then choice BAD_PHONES
       else gbind (randint 200 999) (\<lambda>a.
            gbind (randint 200 999) (\<lambda>b.
            gbind (randint 1000 9999) (\<lambda>c.
              greturn (''+1-'' @ str_int a @ ''-'' @ str_int b @ ''-'' @ str_int c)))))"

definition generate_date :: "date \<Rightarrow> int \<Rightarrow> bool \<Rightarrow> string gen" where
  "generate_date base_date days_range add_issue =
     gbind (and_random_below add_issue (5 / 100)) (\<lambda>bad.
       if bad then choice BAD_DATES
       else gbind (randint (- days_range) days_range) (\<lambda>offset.
            gbind (lift (date_plus_days base_date offset)) (\<lambda>date.
              greturn (strftime date))))"

subsection \<open>Entity generators\<close>

definition customer_body :: "nat \<Rightarrow> pydict gen" where
  "customer_body i =
     (let customer_id = ''CUST'' @ zfill 6 (str_nat (i + 1)) in
      gbind (choice FIRST_NAMES) (\<lambda>first_name.
      gbind (choice LAST_NAMES) (\<lambda>last_name.
      gbind random (\<lambda>u. let add_issues = (u < 20 / 100) in
      gbind (keep_if_random_above (1 / 100) customer_id) (\<lambda>v_customer_id.
      gbind (keep_if_random_above (5 / 100) first_name) (\<lambda>v_first_name.
      gbind (keep_if_random_above (5 / 100) last_name) (\<lambda>v_last_name.
      gbind (generate_email first_name last_name add_issues) (\<lambda>email.
      gbind (generate_phone add_issues) (\<lambda>phone.
      gbind (generate_date (1970, 1, 1) (365 * 40) add_issues) (\<lambda>date_of_birth.
      gbind (gbind random (\<lambda>w. if 3 / 100 < w then choice COUNTRIES else greturn [])) (\<lambda>country.
      gbind (choice KYC_STATUSES) (\<lambda>kyc_status.
      gbind (generate_date TODAY 365 False) (\<lambda>created_date.
        greturn
          [(''customer_id'', v_customer_id),
           (''first_name'', v_first_name),
           (''last_name'', v_last_name),
           (''email'', email),
           (''phone'', phone),
           (''date_of_birth'', date_of_birth),
           (''country'', country),
           (''kyc_status'', kyc_status),
           (''created_date'', created_date),
           (''last_updated'', strftime TODAY)])))))))))))))"

definition generate_customers :: "int \<Rightarrow> pydict list gen" where
  "generate_customers count = for_range count customer_body"

definition account_body :: "pydict list \<Rightarrow> nat \<Rightarrow> pydict gen" where
  "account_body customers i =
     gbind (gbind random (\<lambda>u.
              if u < 5 / 100
              then gbind (randint 900000 999999) (\<lambda>n. greturn (''CUST'' @ str_int n))
              else gbind (choice customers) (\<lambda>c. lift (getitem c ''customer_id'')))) (\<lambda>customer_id.
     gbind (gbind random (\<lambda>u.
              greturn (if 1 / 100 < u then ''ACC'' @ zfill 8 (str_nat (i + 1)) else []))) (\<lambda>account_id.
     gbind (choice ACCOUNT_TYPES) (\<lambda>account_type.
     gbind (uniform 0 100000) (\<lambda>balance.
     gbind (choice CURRENCIES) (\<lambda>currency.
     gbind (choice ACCOUNT_STATUSES) (\<lambda>status.
     gbind (generate_date TODAY 730 False) (\<lambda>opened_date.
     gbind (generate_date TODAY 30 False) (\<lambda>last_transaction_date.
       greturn
         [(''account_id'', account_id),
          (''customer_id'', customer_id),
          (''account_type'', account_type),
          (''balance'', format_f 2 balance),
          (''currency'', currency),
          (''status'', status),
          (''opened_date'', opened_date),
          (''last_transaction_date'', last_transaction_date)]))))))))"

definition generate_accounts :: "pydict list \<Rightarrow> rat \<Rightarrow> pydict list gen" where
  "generate_accounts customers avg_accounts_per_customer =
     gbind (lift (int_of_float (fmul (of_nat (length customers)) avg_accounts_per_customer)))
       (\<lambda>count. for_range count (account_body customers))"

definition transaction_body :: "pydict list \<Rightarrow> nat \<Rightarrow> pydict gen" where
  "transaction_body accounts i =
     gbind (choice accounts) (\<lambda>account.
     gbind (gbind random (\<lambda>u.
              greturn (if 1 / 100 < u then ''TXN'' @ zfill 10 (str_nat (i + 1)) else []))) (\<lambda>transaction_id.
     gbind (lift (getitem account ''account_id'')) (\<lambda>account_id.
     gbind (choice TRANSACTION_TYPES) (\<lambda>transaction_type.
     gbind (uniform (- 10000) 10000) (\<lambda>amount.
     gbind (lift (getitem account ''currency'')) (\<lambda>currency.
     gbind (generate_date TODAY 90 False) (\<lambda>transaction_date.
     gbind (choice TRANSACTION_TYPES) (\<lambda>d1.
     gbind (choice CHANNELS) (\<lambda>d2.
     gbind (choice TRANSACTION_STATUSES) (\<lambda>status.
       greturn
         [(''transaction_id'', transaction_id),
          (''account_id'', account_id),
          (''transaction_type'', transaction_type),
          (''amount'', format_f 2 amount),
          (''currency'', currency),
          (''transaction_date'', transaction_date),
          (''description'', d1 @ '' - '' @ d2),
          (''status'', status)]))))))))))"

definition generate_transactions :: "pydict list \<Rightarrow> int \<Rightarrow> pydict list gen" where
  "generate_transactions accounts transactions_per_account =
     for_range (int (length accounts) * transactions_per_account) (transaction_body accounts)"

text \<open>
  The inner loop of \<^verbatim>\<open>generate_daily_balances\<close>: \<open>n\<close> more days from day \<open>day\<close>, with the
  running \<^verbatim>\<open>base_balance\<close> and the shared list \<^verbatim>\<open>balances\<close>.
\<close>

fun balance_days :: "pydict \<Rightarrow> nat \<Rightarrow> nat \<Rightarrow> rat \<Rightarrow> pydict list \<Rightarrow> pydict list gen" where
  "balance_days account day 0 base_balance balances = greturn balances"
| "balance_days account day (Suc n) base_balance balances =
     gbind (lift (date_plus_days TODAY (- int day))) (\<lambda>date.
     gbind (uniform (- 1000) 1000) (\<lambda>daily_change.
     gbind (lift (getitem account ''account_id'')) (\<lambda>account_id.
     gbind (lift (getitem account ''currency'')) (\<lambda>currency.
       balance_days account (Suc day) n (fadd base_balance daily_change)
         (balances @
          [[(''balance_id'', ''BAL'' @ zfill 10 (str_nat (length balances + 1))),
            (''account_id'', account_id),
            (''balance_date'', strftime date),
            (''opening_balance'', format_f 2 base_balance),
            (''closing_balance'', format_f 2 (fadd base_balance daily_change)),
            (''currency'', currency)]])))))"

fun balance_accounts :: "pydict list \<Rightarrow> nat \<Rightarrow> pydict list \<Rightarrow> pydict list gen" where
  "balance_accounts [] days balances = greturn balances"
| "balance_accounts (account # rest) days balances =
     gbind (lift (getitem account ''balance'')) (\<lambda>b.
     gbind (lift (py_float b)) (\<lambda>base_balance.
     gbind (balance_days account 0 days base_balance balances) (\<lambda>balances'.
       balance_accounts rest days balances')))"

definition generate_daily_balances :: "pydict list \<Rightarrow> int \<Rightarrow> pydict list gen" where
  "generate_daily_balances accounts days = balance_accounts accounts (nat days) []"

text \<open>The body of the inner loop of \<^verbatim>\<open>generate_fx_rates\<close>; \<open>n\<close> is \<^verbatim>\<open>len(rates)\<close>.\<close>

definition fx_rate_body :: "date \<Rightarrow> string \<Rightarrow> rat \<Rightarrow> nat \<Rightarrow> pydict gen" where
  "fx_rate_body date currency base_rate n =
     gbind (uniform (to_double (95 / 100)) (to_double (105 / 100))) (\<lambda>v.
     let rate = fmul base_rate v in
     gbind random (\<lambda>u. let add_issue = (u < 5 / 100) in
     gbind (if \<not> add_issue then greturn (format_f 6 rate) else choice BAD_RATES) (\<lambda>exchange_rate.
     gbind (choice FX_SOURCES) (\<lambda>source.
       greturn
         [(''rate_id'', ''FX'' @ zfill 8 (str_nat (n + 1))),
          (''from_currency'', ''USD''),
          (''to_currency'', currency),
          (''exchange_rate'', exchange_rate),
          (''rate_date'', strftime date),
          (''source'', source)]))))"

fun fx_currencies :: "date \<Rightarrow> (string \<times> rat) list \<Rightarrow> pydict list \<Rightarrow> pydict list gen" where
  "fx_currencies date [] rates = greturn rates"
| "fx_currencies date ((currency, base_rate) # rest) rates =
     gbind (fx_rate_body date currency base_rate (length rates)) (\<lambda>fx_rate.
       fx_currencies date rest (rates @ [fx_rate]))"

fun fx_days :: "nat \<Rightarrow> nat \<Rightarrow> pydict list \<Rightarrow> pydict list gen" where
  "fx_days day 0 rates = greturn rates"
| "fx_days day (Suc n) rates =
     gbind (lift (date_plus_days TODAY (- int day))) (\<lambda>date.
     gbind (fx_currencies date BASE_RATES rates) (\<lambda>rates'.
       fx_days (Suc day) n rates'))"

definition generate_fx_rates :: "int \<Rightarrow> pydict list gen" where
  "generate_fx_rates days = fx_days 0 (nat days) []"

section \<open>The clean variant: \<^verbatim>\<open>scripts/generate_pure_sample_data.py\<close>\<close>

text \<open>
  The clean script has the same function names as the defect script; its functions carry
  the prefix \<open>pure_\<close> here. Its \<^verbatim>\<open>generate_daily_balances\<close> is the same text as the
  defect script's, so both share the two loops above.
\<close>

definition pure_generate_email :: "string \<Rightarrow> string \<Rightarrow> string gen" where
  "pure_generate_email first_name last_name =
     gbind (choice EMAIL_DOMAINS) (\<lambda>domain.
       greturn (lower first_name @ ''.'' @ lower last_name @ ''@'' @ domain))"

definition pure_generate_phone :: "string gen" where
  "pure_generate_phone =
     gbind (randint 200 999) (\<lambda>a.
     gbind (randint 200 999) (\<lambda>b.
     gbind (randint 1000 9999) (\<lambda>c.
       greturn (''+1-'' @ str_int a @ ''-'' @ str_int b @ ''-'' @ str_int c))))"

definition pure_generate_date :: "date \<Rightarrow> int \<Rightarrow> string gen" where
  "pure_generate_date base_date days_range =
     gbind (randint (- days_range) days_range) (\<lambda>offset.
     gbind (lift (date_plus_days base_date offset)) (\<lambda>date.
       greturn (strftime date)))"

definition pure_customer_body :: "nat \<Rightarrow> pydict gen" where
  "pure_customer_body i =
     (let customer_id = ''CUST'' @ zfill 6 (str_nat (i + 1)) in
      gbind (choice FIRST_NAMES) (\<lambda>first_name.
      gbind (choice LAST_NAMES) (\<lambda>last_name.
      gbind (pure_generate_email first_name last_name) (\<lambda>email.
      gbind pure_generate_phone (\<lambda>phone.
      gbind (pure_generate_date (1970, 1, 1) (365 * 40)) (\<lambda>date_of_birth.
      gbind (choice COUNTRIES) (\<lambda>country.
      gbind (choice KYC_STATUSES) (\<lambda>kyc_status.
      gbind (pure_generate_date TODAY 365) (\<lambda>created_date.
        greturn
          [(''customer_id'', customer_id),
           (''first_name'', first_name),
           (''last_name'', last_name),
           (''email'', email),
           (''phone'', phone),
           (''date_of_birth'', date_of_birth),
           (''country'', country),
           (''kyc_status'', kyc_status),
           (''created_date'', created_date),
           (''last_updated'', strftime TODAY)])))))))))"

definition pure_generate_customers :: "int \<Rightarrow> pydict list gen" where
  "pure_generate_customers count = for_range count pure_customer_body"

definition pure_account_body :: "pydict list \<Rightarrow> nat \<Rightarrow> pydict gen" where
  "pure_account_body customers i =
     gbind (gbind (choice customers) (\<lambda>c. lift (getitem c ''customer_id''))) (\<lambda>customer_id.
     gbind (choice ACCOUNT_TYPES) (\<lambda>account_type.
     gbind (uniform 0 100000) (\<lambda>balance.
     gbind (choice CURRENCIES) (\<lambda>currency.
     gbind (choice ACCOUNT_STATUSES) (\<lambda>status.
     gbind (pure_generate_date TODAY 730) (\<lambda>opened_date.
     gbind (pure_generate_date TODAY 30) (\<lambda>last_transaction_date.
       greturn
         [(''account_id'', ''ACC'' @ zfill 8 (str_nat (i + 1))),
          (''customer_id'', customer_id),
          (''account_type'', account_type),
          (''balance'', format_f 2 balance),
          (''currency'', currency),
          (''status'', status),
          (''opened_date'', opened_date),
          (''last_transaction_date'', last_transaction_date)])))))))"

definition pure_generate_accounts :: "pydict list \<Rightarrow> rat \<Rightarrow> pydict list gen" where
  "pure_generate_accounts customers avg_accounts_per_customer =
     gbind (lift (int_of_float (fmul (of_nat (length customers)) avg_accounts_per_customer)))
       (\<lambda>count. for_range count (pure_account_body customers))"

definition pure_transaction_body :: "pydict list \<Rightarrow> nat \<Rightarrow> pydict gen" where
  "pure_transaction_body accounts i =
     gbind (choice accounts) (\<lambda>account.
     gbind (lift (getitem account ''account_id'')) (\<lambda>account_id.
     gbind (choice TRANSACTION_TYPES) (\<lambda>transaction_type.
     gbind (uniform (- 10000) 10000) (\<lambda>amount.
     gbind (lift (getitem account ''currency'')) (\<lambda>currency.
     gbind (pure_generate_date TODAY 90) (\<lambda>transaction_date.
     gbind (choice TRANSACTION_TYPES) (\<lambda>d1.
     gbind (choice CHANNELS) (\<lambda>d2.
     gbind (choice TRANSACTION_STATUSES) (\<lambda>status.
       greturn
         [(''transaction_id'', ''TXN'' @ zfill 10 (str_nat (i + 1))),
          (''account_id'', account_id),
          (''transaction_type'', transaction_type),
          (''amount'', format_f 2 amount),
          (''currency'', currency),
          (''transaction_date'', transaction_date),
          (''description'', d1 @ '' - '' @ d2),
          (''status'', status)])))))))))"

definition pure_generate_transactions :: "pydict list \<Rightarrow> int \<Rightarrow> pydict list gen" where
  "pure_generate_transactions accounts transactions_per_account =
     for_range (int (length accounts) * transactions_per_account) (pure_transaction_body accounts)"

definition pure_generate_daily_balances :: "pydict list \<Rightarrow> int \<Rightarrow> pydict list gen" where
  "pure_generate_daily_balances accounts days = balance_accounts accounts (nat days) []"

definition pure_fx_rate_body :: "date \<Rightarrow> string \<Rightarrow> rat \<Rightarrow> nat \<Rightarrow> pydict gen" where
  "pure_fx_rate_body date currency base_rate n =
     gbind (uniform (to_double (95 / 100)) (to_double (105 / 100))) (\<lambda>v.
     let rate = fmul base_rate v in
     gbind (choice FX_SOURCES) (\<lambda>source.
       greturn
         [(''rate_id'', ''FX'' @ zfill 8 (str_nat (n + 1))),
          (''from_currency'', ''USD''),
          (''to_currency'', currency),
          (''exchange_rate'', format_f 6 rate),
          (''rate_date'', strftime date),
          (''source'', source)]))"

fun pure_fx_currencies :: "date \<Rightarrow> (string \<times> rat) list \<Rightarrow> pydict list \<Rightarrow> pydict list gen" where
  "pure_fx_currencies date [] rates = greturn rates"
| "pure_fx_currencies date ((currency, base_rate) # rest) rates =
     gbind (pure_fx_rate_body date currency base_rate (length rates)) (\<lambda>fx_rate.
       pure_fx_currencies date rest (rates @ [fx_rate]))"

fun pure_fx_days :: "nat \<Rightarrow> nat \<Rightarrow> pydict list \<Rightarrow> pydict list gen" where
  "pure_fx_days day 0 rates = greturn rates"
| "pure_fx_days day (Suc n) rates =
     gbind (lift (date_plus_days TODAY (- int day))) (\<lambda>date.
     gbind (pure_fx_currencies date BASE_RATES rates) (\<lambda>rates'.
       pure_fx_days (Suc day) n rates'))"

definition pure_generate_fx_rates :: "int \<Rightarrow> pydict list gen" where
  "pure_generate_fx_rates days = pure_fx_days 0 (nat days) []"

section \<open>Serialization\<close>

text \<open>
  \<^verbatim>\<open>write_csv\<close> opens the file for writing (truncating what was there) and hands the rows
  to \<^verbatim>\<open>csv.DictWriter\<close> with the default dialect: fields joined by commas, rows ended
  by CR LF, a field quoted when it holds a comma, a quote, CR or LF, quotes doubled, and a
  row that would be empty written as two quotes. A record with a key outside \<open>fieldnames\<close>
  raises \<^verbatim>\<open>ValueError\<close> after the rows before it were written; a missing key is written
  as the empty string. The file system is a map from paths to contents; failures of the
  operating system are not modelled.
\<close>

type_synonym filesystem = "string \<Rightarrow> string option"

definition CR :: char where
  "CR = CHR 0x0D"

definition LF :: char where
  "LF = CHR 0x0A"

definition needs_quote :: "string \<Rightarrow> bool" where
  "needs_quote s = (\<exists>c \<in> set s. c = CHR '','' \<or> c = CHR 0x22 \<or> c = CR \<or> c = LF)"

definition csv_field :: "string \<Rightarrow> string" where
  "csv_field s =
     (if needs_quote s
      then [CHR 0x22] @ concat (map (\<lambda>c. if c = CHR 0x22 then [c, c] else [c]) s) @ [CHR 0x22]
      else s)"

fun join_fields :: "string list \<Rightarrow> string" where
  "join_fields [] = []"
| "join_fields [f] = f"
| "join_fields (f # g # fs) = f @ '','' @ join_fields (g # fs)"

definition csv_row :: "string list \<Rightarrow> string" where
  "csv_row fields =
     (let body = join_fields (map csv_field fields)
      in (if fields \<noteq> [] \<and> body = [] then [CHR 0x22, CHR 0x22] else body) @ [CR, LF])"

definition dict_to_list :: "string list \<Rightarrow> pydict \<Rightarrow> error + string list" where
  "dict_to_list fieldnames rowdict =
     (if \<exists>k \<in> set (map fst rowdict). k \<notin> set fieldnames then Inl ValueError
      else Inr (map (\<lambda>k. case map_of rowdict k of None \<Rightarrow> [] | Some v \<Rightarrow> v) fieldnames))"

fun writerows :: "string list \<Rightarrow> pydict list \<Rightarrow> string \<Rightarrow> error option \<times> string" where
  "writerows fieldnames [] out = (None, out)"
| "writerows fieldnames (rowdict # rest) out =
     (case dict_to_list fieldnames rowdict of
        Inl e \<Rightarrow> (Some e, out)
      | Inr fields \<Rightarrow> writerows fieldnames rest (out @ csv_row fields))"

definition OUTPUT_DIR :: string where
  "OUTPUT_DIR = ''sample_data''"

definition pure_OUTPUT_DIR :: string where
  "pure_OUTPUT_DIR = ''pure_sample_data''"

definition write_csv_in ::
  "string \<Rightarrow> string \<Rightarrow> pydict list \<Rightarrow> string list \<Rightarrow> filesystem \<Rightarrow> error option \<times> filesystem" where
  "write_csv_in dir filename data fieldnames fs =
     (let filepath = dir @ ''/'' @ filename;
          res = writerows fieldnames data (csv_row fieldnames)
      in (fst res, fs(filepath := Some (snd res))))"

definition write_csv ::
  "string \<Rightarrow> pydict list \<Rightarrow> string list \<Rightarrow> filesystem \<Rightarrow> error option \<times> filesystem" where
  "write_csv = write_csv_in OUTPUT_DIR"

definition pure_write_csv ::
  "string \<Rightarrow> pydict list \<Rightarrow> string list \<Rightarrow> filesystem \<Rightarrow> error option \<times> filesystem" where
  "pure_write_csv = write_csv_in pure_OUTPUT_DIR"

subsection \<open>The entry points\<close>

text \<open>
  The entry points. \<^verbatim>\<open>main\<close> generates the five collections with the counts 1000, 1.5,
  10, 30 and 90, threading the process-wide random generator through the five calls, and
  then writes the five files; an exception ends it there, with the files written so far.
  The result is the exception, if any, and the file system. The output directory is created
  first (\<^verbatim>\<open>mkdir(exist_ok=True)\<close>; directories are not part of the file-system model), and
  the messages printed to the console are not modelled.
\<close>

definition customer_fieldnames :: "string list" where
  "customer_fieldnames = [''customer_id'', ''first_name'', ''last_name'', ''email'', ''phone'',
     ''date_of_birth'', ''country'', ''kyc_status'', ''created_date'', ''last_updated'']"

definition account_fieldnames :: "string list" where
  "account_fieldnames = [''account_id'', ''customer_id'', ''account_type'', ''balance'',
     ''currency'', ''status'', ''opened_date'', ''last_transaction_date'']"

definition transaction_fieldnames :: "string list" where
  "transaction_fieldnames = [''transaction_id'', ''account_id'', ''transaction_type'', ''amount'',
     ''currency'', ''transaction_date'', ''description'', ''status'']"

definition daily_balance_fieldnames :: "string list" where
  "daily_balance_fieldnames = [''balance_id'', ''account_id'', ''balance_date'', ''opening_balance'',
     ''closing_balance'', ''currency'']"

definition fx_rate_fieldnames :: "string list" where
  "fx_rate_fieldnames = [''rate_id'', ''from_currency'', ''to_currency'', ''exchange_rate'',
     ''rate_date'', ''source'']"

text \<open>The next statement of \<^verbatim>\<open>main\<close> runs when the one before raised nothing.\<close>

definition then_write ::
  "error option \<times> filesystem \<Rightarrow> (filesystem \<Rightarrow> error option \<times> filesystem)
     \<Rightarrow> error option \<times> filesystem" where
  "then_write res w = (case fst res of Some e \<Rightarrow> res | None \<Rightarrow> w (snd res))"

definition main :: "filesystem \<Rightarrow> rng \<Rightarrow> error option \<times> filesystem" where
  "main fs r =
     (case generate_customers 1000 r of Inl e \<Rightarrow> (Some e, fs) | Inr (customers, r1) \<Rightarrow>
      case generate_accounts customers (3 / 2) r1 of Inl e \<Rightarrow> (Some e, fs) | Inr (accounts, r2) \<Rightarrow>
      case generate_transactions accounts 10 r2 of Inl e \<Rightarrow> (Some e, fs) | Inr (transactions, r3) \<Rightarrow>
      case generate_daily_balances accounts 30 r3 of Inl e \<Rightarrow> (Some e, fs) | Inr (daily_balances, r4) \<Rightarrow>
      case generate_fx_rates 90 r4 of Inl e \<Rightarrow> (Some e, fs) | Inr (fx_rates, r5) \<Rightarrow>
        then_write (then_write (then_write (then_write
          (write_csv ''customer.csv'' customers customer_fieldnames fs)
          (write_csv ''account.csv'' accounts account_fieldnames))
          (write_csv ''transaction.csv'' transactions transaction_fieldnames))
          (write_csv ''daily_balance.csv'' daily_balances daily_balance_fieldnames))
          (write_csv ''fx_rate.csv'' fx_rates fx_rate_fieldnames))"

definition pure_main :: "filesystem \<Rightarrow> rng \<Rightarrow> error option \<times> filesystem" where
  "pure_main fs r =
     (case pure_generate_customers 1000 r of Inl e \<Rightarrow> (Some e, fs) | Inr (customers, r1) \<Rightarrow>
      case pure_generate_accounts customers (3 / 2) r1 of Inl e \<Rightarrow> (Some e, fs) | Inr (accounts, r2) \<Rightarrow>
      case pure_generate_transactions accounts 10 r2 of Inl e \<Rightarrow> (Some e, fs) | Inr (transactions, r3) \<Rightarrow>
      case pure_generate_daily_balances accounts 30 r3 of Inl e \<Rightarrow> (Some e, fs) | Inr (daily_balances, r4) \<Rightarrow>
      case pure_generate_fx_rates 90 r4 of Inl e \<Rightarrow> (Some e, fs) | Inr (fx_rates, r5) \<Rightarrow>
        then_write (then_write (then_write (then_write
          (pure_write_csv ''customer.csv'' customers customer_fieldnames fs)
          (pure_write_csv ''account.csv'' accounts account_fieldnames))
          (pure_write_csv ''transaction.csv'' transactions transaction_fieldnames))
          (pure_write_csv ''daily_balance.csv'' daily_balances daily_balance_fieldnames))
          (pure_write_csv ''fx_rate.csv'' fx_rates fx_rate_fieldnames))"

section \<open>Notions used in the statements\<close>

text \<open>A generator is total when it returns a value from every random source.\<close>

definition total :: "'a gen \<Rightarrow> bool" where
  "total m = (\<forall>r. \<exists>x r'. m r = Inr (x, r'))"

text \<open>A dict has every key of a list.\<close>

definition has_keys :: "string list \<Rightarrow> pydict \<Rightarrow> bool" where
  "has_keys ks d = list_all (\<lambda>k. k \<in> set (map fst d)) ks"

text \<open>A small account collection for the examples.\<close>

definition sample_accounts :: "pydict list" where
  "sample_accounts =
     [[(''account_id'', ''ACC00000001''), (''customer_id'', ''CUST000001''),
       (''account_type'', ''SAVINGS''), (''balance'', ''250.00''), (''currency'', ''EUR''),
       (''status'', ''ACTIVE''), (''opened_date'', ''2025-06-01''),
       (''last_transaction_date'', ''2026-01-02'')],
      [(''account_id'', ''ACC00000002''), (''customer_id'', ''CUST000001''),
       (''account_type'', ''LOAN''), (''balance'', ''0.00''), (''currency'', ''JPY''),
       (''status'', ''CLOSED''), (''opened_date'', ''2024-03-09''),
       (''last_transaction_date'', ''2026-01-20'')]]"

definition uniform_of_draw :: "rat \<Rightarrow> rat \<Rightarrow> nat \<Rightarrow> rat" where
  "uniform_of_draw a b k = fadd a (fmul (fsub b a) (random_of_draw k))"

fun walk :: "rat \<Rightarrow> rng \<Rightarrow> nat \<Rightarrow> rat" where
  "walk base r 0 = base"
| "walk base r (Suc k) = fadd (walk base r k) (uniform_of_draw (- 1000) 1000 (r k))"

definition balance_row :: "pydict \<Rightarrow> nat \<Rightarrow> nat \<Rightarrow> rat \<Rightarrow> rat \<Rightarrow> pydict" where
  "balance_row account idx day opening closing =
     [(''balance_id'', ''BAL'' @ zfill 10 (str_nat (idx + 1))),
      (''account_id'', projr (getitem account ''account_id'')),
      (''balance_date'', strftime (ord2ymd (ymd2ord TODAY - int day))),
      (''opening_balance'', format_f 2 opening),
      (''closing_balance'', format_f 2 closing),
      (''currency'', projr (getitem account ''currency''))]"

definition account_base :: "pydict \<Rightarrow> rat" where
  "account_base account = projr (py_float (projr (getitem account ''balance'')))"

fun balance_rows :: "pydict list \<Rightarrow> nat \<Rightarrow> nat \<Rightarrow> rng \<Rightarrow> pydict list" where
  "balance_rows [] idx days r = []"
| "balance_rows (a # rest) idx days r =
     map (\<lambda>k. balance_row a (idx + k) k (walk (account_base a) r k) (walk (account_base a) r (Suc k)))
       [0..<days]
     @ balance_rows rest (idx + days) days (\<lambda>i. r (i + days))"

definition cents :: "rat \<Rightarrow> nat" where
  "cents x = nat (round_half_even (\<bar>x\<bar> * 100))"

definition generated_balance :: "string \<Rightarrow> bool" where
  "generated_balance b = (\<exists>k. b = format_f 2 (uniform_of_draw 0 100000 k))"

definition valid_account :: "pydict \<Rightarrow> bool" where
  "valid_account a =
     (has_keys [''account_id'', ''currency'', ''balance''] a \<and>
      \<not> isl (py_float (projr (getitem a ''balance''))))"

definition sample_customers :: "pydict list" where
  "sample_customers =
     [[(''customer_id'', ''CUST000001''), (''first_name'', ''Jane''), (''last_name'', ''Smith''),
       (''email'', ''jane.smith@gmail.com''), (''phone'', ''+1-200-200-1000''),
       (''date_of_birth'', ''1970-01-01''), (''country'', ''USA''), (''kyc_status'', ''VERIFIED''),
       (''created_date'', ''2026-01-22''), (''last_updated'', ''2026-01-22'')],
      [(''customer_id'', ''CUST000002''), (''first_name'', ''John''), (''last_name'', ''Brown''),
       (''email'', ''john.brown@yahoo.com''), (''phone'', ''+1-201-202-1003''),
       (''date_of_birth'', ''1980-05-17''), (''country'', ''UK''), (''kyc_status'', ''PENDING''),
       (''created_date'', ''2025-11-02''), (''last_updated'', ''2026-01-22'')]]"

definition const_source :: "nat \<Rightarrow> rng" where
  "const_source c = (\<lambda>n. c)"

definition keeps_const :: "'a gen \<Rightarrow> bool" where
  "keeps_const m = (\<forall>c x r1. m (const_source c) = Inr (x, r1) \<longrightarrow> r1 = const_source c)"

definition collision_draw :: nat where
  "collision_draw = 270215977600000"

definition orphan_unmatched :: "pydict list \<Rightarrow> pydict \<Rightarrow> bool" where
  "orphan_unmatched customers a =
     (\<exists>n. 900000 \<le> n \<and> n \<le> 999999 \<and>
          getitem a ''customer_id'' = Inr (''CUST'' @ str_int n) \<and>
          list_all (\<lambda>c. getitem c ''customer_id'' \<noteq> Inr (''CUST'' @ str_int n)) customers)"

definition resolved :: "pydict list \<Rightarrow> pydict \<Rightarrow> bool" where
  "resolved customers a =
     list_ex (\<lambda>c. getitem a ''customer_id'' = getitem c ''customer_id'') customers"

definition row_values :: "string list \<Rightarrow> pydict \<Rightarrow> string list" where
  "row_values fieldnames rowdict =
     map (\<lambda>k. case map_of rowdict k of None \<Rightarrow> [] | Some v \<Rightarrow> v) fieldnames"

definition csv_text :: "string list \<Rightarrow> pydict list \<Rightarrow> string" where
  "csv_text fieldnames data =
     concat (map csv_row (fieldnames # map (row_values fieldnames) data))"

definition fits :: "string list \<Rightarrow> pydict \<Rightarrow> bool" where
  "fits fieldnames rowdict = list_all (\<lambda>k. k \<in> set fieldnames) (map fst rowdict)"

text \<open>A random source that starts with the draws of a list.\<close>

definition prepend :: "nat list \<Rightarrow> rng \<Rightarrow> rng" where
  "prepend xs r = (\<lambda>n. if n < length xs then xs ! n else r (n - length xs))"

definition clean_date :: "date \<Rightarrow> int \<Rightarrow> nat \<Rightarrow> string" where
  "clean_date dt d x = strftime (ord2ymd (ymd2ord dt + (- d + int x mod (d - - d + 1))))"

definition clean_email :: "string \<Rightarrow> string \<Rightarrow> nat \<Rightarrow> string" where
  "clean_email f l x = lower f @ ''.'' @ lower l @ ''@'' @ EMAIL_DOMAINS ! (x mod length EMAIL_DOMAINS)"

definition clean_phone :: "nat \<Rightarrow> nat \<Rightarrow> nat \<Rightarrow> string" where
  "clean_phone x y z =
     ''+1-'' @ str_int (200 + int x mod 800) @ ''-'' @ str_int (200 + int y mod 800) @ ''-''
       @ str_int (1000 + int z mod 9000)"

definition keep_state :: "rng \<Rightarrow> error + ('a \<times> rng) \<Rightarrow> error + ('a \<times> rng)" where
  "keep_state s v = (case v of Inl e \<Rightarrow> Inl e | Inr (x, r1) \<Rightarrow> Inr (x, s))"

definition shift :: "nat \<Rightarrow> rng \<Rightarrow> rng" where
  "shift a r = (\<lambda>n. r (n + a))"

definition map_state :: "(rng \<Rightarrow> rng) \<Rightarrow> error + ('a \<times> rng) \<Rightarrow> error + ('a \<times> rng)" where
  "map_state f v = (case v of Inl e \<Rightarrow> Inl e | Inr (x, r1) \<Rightarrow> Inr (x, f r1))"

definition counting_source :: rng where
  "counting_source = (\<lambda>n. n)"

text \<open>\<^verbatim>\<open>_days_in_month\<close> of Python's \<^verbatim>\<open>datetime\<close> module.\<close>

definition days_in_month :: "int \<Rightarrow> int \<Rightarrow> int" where
  "days_in_month y m = (if m = 2 \<and> is_leap y then 29 else DAYS_IN_MONTH ! nat m)"

text \<open>
  A date in the format YYYY-MM-DD: four digits, two digits and two digits, separated by
  hyphens, that name a day of the calendar.
\<close>

definition is_date_string :: "string \<Rightarrow> bool" where
  "is_date_string s =
     (length s = 10 \<and> list_all is_digit (take 4 s) \<and> s ! 4 = CHR ''-'' \<and>
      list_all is_digit (take 2 (drop 5 s)) \<and> s ! 7 = CHR ''-'' \<and> list_all is_digit (drop 8 s) \<and>
      (let y = int (nat_of_digits (take 4 s)); m = int (nat_of_digits (take 2 (drop 5 s)));
           d = int (nat_of_digits (drop 8 s))
       in 1 \<le> y \<and> 1 \<le> m \<and> m \<le> 12 \<and> 1 \<le> d \<and> d \<le> days_in_month y m))"

text \<open>
  Whether a call of a field generator takes its defect branch on a random source: the
  value of its condition \<^verbatim>\<open>add_issue and random.random() < p\<close>.
\<close>

definition takes_defect_branch :: "bool \<Rightarrow> rat \<Rightarrow> rng \<Rightarrow> bool" where
  "takes_defect_branch add_issue p r =
     (case and_random_below add_issue p r of Inr (bad, r') \<Rightarrow> bad | Inl e \<Rightarrow> False)"

text \<open>
  The claim that the clean script is the defect script with every probability set to zero
  speaks of a defect script whose probabilities can be set. The definitions below follow
  these words: they are the defect script's generators with the literals 0.20, 0.01, 0.05,
  0.03, 0.15, 0.10, 0.05 (dates), 0.05 (orphans) and 0.05 (rates) replaced by the fields of
  a record.
\<close>

record probs =
  issue_rate :: rat
  missing_id :: rat
  missing_name :: rat
  missing_country :: rat
  bad_email :: rat
  bad_phone :: rat
  bad_date :: rat
  orphan :: rat
  bad_rate :: rat

definition source_probs :: probs where
  "source_probs = \<lparr>issue_rate = 20 / 100, missing_id = 1 / 100, missing_name = 5 / 100,
     missing_country = 3 / 100, bad_email = 15 / 100, bad_phone = 10 / 100,
     bad_date = 5 / 100, orphan = 5 / 100, bad_rate = 5 / 100\<rparr>"

definition zero_probs :: probs where
  "zero_probs = \<lparr>issue_rate = 0, missing_id = 0, missing_name = 0, missing_country = 0,
     bad_email = 0, bad_phone = 0, bad_date = 0, orphan = 0, bad_rate = 0\<rparr>"

definition variant_generate_email :: "probs \<Rightarrow> string \<Rightarrow> string \<Rightarrow> bool \<Rightarrow> string gen" where
  "variant_generate_email P first_name last_name add_issue =
     gbind (and_random_below add_issue (bad_email P)) (\<lambda>bad.
       if bad then choice (bad_emails first_name last_name)
       else gbind (choice EMAIL_DOMAINS) (\<lambda>domain.
              greturn (lower first_name @ ''.'' @ lower last_name @ ''@'' @ domain)))"

definition variant_generate_phone :: "probs \<Rightarrow> bool \<Rightarrow> string gen" where
  "variant_generate_phone P add_issue =
     gbind (and_random_below add_issue (bad_phone P)) (\<lambda>bad.
       if bad then choice BAD_PHONES
       else gbind (randint 200 999) (\<lambda>a.
            gbind (randint 200 999) (\<lambda>b.
            gbind (randint 1000 9999) (\<lambda>c.
              greturn (''+1-'' @ str_int a @ ''-'' @ str_int b @ ''-'' @ str_int c)))))"

definition variant_generate_date :: "probs \<Rightarrow> date \<Rightarrow> int \<Rightarrow> bool \<Rightarrow> string gen" where
  "variant_generate_date P base_date days_range add_issue =
     gbind (and_random_below add_issue (bad_date P)) (\<lambda>bad.
       if bad then choice BAD_DATES
       else gbind (randint (- days_range) days_range) (\<lambda>offset.
            gbind (lift (date_plus_days base_date offset)) (\<lambda>date.
              greturn (strftime date))))"

definition variant_customer_body :: "probs \<Rightarrow> nat \<Rightarrow> pydict gen" where
  "variant_customer_body P i =
     (let customer_id = ''CUST'' @ zfill 6 (str_nat (i + 1)) in
      gbind (choice FIRST_NAMES) (\<lambda>first_name.
      gbind (choice LAST_NAMES) (\<lambda>last_name.
      gbind random (\<lambda>u. let add_issues = (u < issue_rate P) in
      gbind (keep_if_random_above (missing_id P) customer_id) (\<lambda>v_customer_id.
      gbind (keep_if_random_above (missing_name P) first_name) (\<lambda>v_first_name.
      gbind (keep_if_random_above (missing_name P) last_name) (\<lambda>v_last_name.
      gbind (variant_generate_email P first_name last_name add_issues) (\<lambda>email.
      gbind (variant_generate_phone P add_issues) (\<lambda>phone.
      gbind (variant_generate_date P (1970, 1, 1) (365 * 40) add_issues) (\<lambda>date_of_birth.
      gbind (gbind random (\<lambda>w. if missing_country P < w then choice COUNTRIES else greturn [])) (\<lambda>country.
      gbind (choice KYC_STATUSES) (\<lambda>kyc_status.
      gbind (variant_generate_date P TODAY 365 False) (\<lambda>created_date.
        greturn
          [(''customer_id'', v_customer_id),
           (''first_name'', v_first_name),
           (''last_name'', v_last_name),
           (''email'', email),
           (''phone'', phone),
           (''date_of_birth'', date_of_birth),
           (''country'', country),
           (''kyc_status'', kyc_status),
           (''created_date'', created_date),
           (''last_updated'', strftime TODAY)])))))))))))))"

definition variant_generate_customers :: "probs \<Rightarrow> int \<Rightarrow> pydict list gen" where
  "variant_generate_customers P count = for_range count (variant_customer_body P)"

definition variant_account_body :: "probs \<Rightarrow> pydict list \<Rightarrow> nat \<Rightarrow> pydict gen" where
  "variant_account_body P customers i =
     gbind (gbind random (\<lambda>u.
              if u < orphan P
              then gbind (randint 900000 999999) (\<lambda>n. greturn (''CUST'' @ str_int n))
              else gbind (choice customers) (\<lambda>c. lift (getitem c ''customer_id'')))) (\<lambda>customer_id.
     gbind (gbind random (\<lambda>u.
              greturn (if missing_id P < u then ''ACC'' @ zfill 8 (str_nat (i + 1)) else []))) (\<lambda>account_id.
     gbind (choice ACCOUNT_TYPES) (\<lambda>account_type.
     gbind (uniform 0 100000) (\<lambda>balance.
     gbind (choice CURRENCIES) (\<lambda>currency.
     gbind (choice ACCOUNT_STATUSES) (\<lambda>status.
     gbind (variant_generate_date P TODAY 730 False) (\<lambda>opened_date.
     gbind (variant_generate_date P TODAY 30 False) (\<lambda>last_transaction_date.
       greturn
         [(''account_id'', account_id),
          (''customer_id'', customer_id),
          (''account_type'', account_type),
          (''balance'', format_f 2 balance),
          (''currency'', currency),
          (''status'', status),
          (''opened_date'', opened_date),
          (''last_transaction_date'', last_transaction_date)]))))))))"

definition variant_generate_accounts :: "probs \<Rightarrow> pydict list \<Rightarrow> rat \<Rightarrow> pydict list gen" where
  "variant_generate_accounts P customers avg_accounts_per_customer =
     gbind (lift (int_of_float (fmul (of_nat (length customers)) avg_accounts_per_customer)))
       (\<lambda>count. for_range count (variant_account_body P customers))"

definition variant_transaction_body :: "probs \<Rightarrow> pydict list \<Rightarrow> nat \<Rightarrow> pydict gen" where
  "variant_transaction_body P accounts i =
     gbind (choice accounts) (\<lambda>account.
     gbind (gbind random (\<lambda>u.
              greturn (if missing_id P < u then ''TXN'' @ zfill 10 (str_nat (i + 1)) else []))) (\<lambda>transaction_id.
     gbind (lift (getitem account ''account_id'')) (\<lambda>account_id.
     gbind (choice TRANSACTION_TYPES) (\<lambda>transaction_type.
     gbind (uniform (- 10000) 10000) (\<lambda>amount.
     gbind (lift (getitem account ''currency'')) (\<lambda>currency.
     gbind (variant_generate_date P TODAY 90 False) (\<lambda>transaction_date.
     gbind (choice TRANSACTION_TYPES) (\<lambda>d1.
     gbind (choice CHANNELS) (\<lambda>d2.
     gbind (choice TRANSACTION_STATUSES) (\<lambda>status.
       greturn
         [(''transaction_id'', transaction_id),
          (''account_id'', account_id),
          (''transaction_type'', transaction_type),
          (''amount'', format_f 2 amount),
          (''currency'', currency),
          (''transaction_date'', transaction_date),
          (''description'', d1 @ '' - '' @ d2),
          (''status'', status)]))))))))))"

definition variant_generate_transactions :: "probs \<Rightarrow> pydict list \<Rightarrow> int \<Rightarrow> pydict list gen" where
  "variant_generate_transactions P accounts transactions_per_account =
     for_range (int (length accounts) * transactions_per_account) (variant_transaction_body P accounts)"

definition variant_fx_rate_body :: "probs \<Rightarrow> date \<Rightarrow> string \<Rightarrow> rat \<Rightarrow> nat \<Rightarrow> pydict gen" where
  "variant_fx_rate_body P date currency base_rate n =
     gbind (uniform (to_double (95 / 100)) (to_double (105 / 100))) (\<lambda>v.
     let rate = fmul base_rate v in
     gbind random (\<lambda>u. let add_issue = (u < bad_rate P) in
     gbind (if \<not> add_issue then greturn (format_f 6 rate) else choice BAD_RATES) (\<lambda>exchange_rate.
     gbind (choice FX_SOURCES) (\<lambda>source.
       greturn
         [(''rate_id'', ''FX'' @ zfill 8 (str_nat (n + 1))),
          (''from_currency'', ''USD''),
          (''to_currency'', currency),
          (''exchange_rate'', exchange_rate),
          (''rate_date'', strftime date),
          (''source'', source)]))))"

fun variant_fx_currencies ::
  "probs \<Rightarrow> date \<Rightarrow> (string \<times> rat) list \<Rightarrow> pydict list \<Rightarrow> pydict list gen" where
  "variant_fx_currencies P date [] rates = greturn rates"
| "variant_fx_currencies P date ((currency, base_rate) # rest) rates =
     gbind (variant_fx_rate_body P date currency base_rate (length rates)) (\<lambda>fx_rate.
       variant_fx_currencies P date rest (rates @ [fx_rate]))"

fun variant_fx_days :: "probs \<Rightarrow> nat \<Rightarrow> nat \<Rightarrow> pydict list \<Rightarrow> pydict list gen" where
  "variant_fx_days P day 0 rates = greturn rates"
| "variant_fx_days P day (Suc n) rates =
     gbind (lift (date_plus_days TODAY (- int day))) (\<lambda>date.
     gbind (variant_fx_currencies P date BASE_RATES rates) (\<lambda>rates'.
       variant_fx_days P (Suc day) n rates'))"

definition variant_generate_fx_rates :: "probs \<Rightarrow> int \<Rightarrow> pydict list gen" where
  "variant_generate_fx_rates P days = variant_fx_days P 0 (nat days) []"

text \<open>
  An entry point as a function of its five generators and of its output directory, and the
  defect script's entry point with given probabilities and a given directory.
\<close>

definition entry_point ::
  "(int \<Rightarrow> pydict list gen) \<Rightarrow> (pydict list \<Rightarrow> rat \<Rightarrow> pydict list gen) \<Rightarrow>
   (pydict list \<Rightarrow> int \<Rightarrow> pydict list gen) \<Rightarrow> (pydict list \<Rightarrow> int \<Rightarrow> pydict list gen) \<Rightarrow>
   (int \<Rightarrow> pydict list gen) \<Rightarrow> string \<Rightarrow> filesystem \<Rightarrow> rng \<Rightarrow> error option \<times> filesystem" where
  "entry_point gen_customers gen_accounts gen_transactions gen_daily_balances gen_fx_rates dir fs r =
     (case gen_customers 1000 r of Inl e \<Rightarrow> (Some e, fs) | Inr (customers, r1) \<Rightarrow>
      case gen_accounts customers (3 / 2) r1 of Inl e \<Rightarrow> (Some e, fs) | Inr (accounts, r2) \<Rightarrow>
      case gen_transactions accounts 10 r2 of Inl e \<Rightarrow> (Some e, fs) | Inr (transactions, r3) \<Rightarrow>
      case gen_daily_balances accounts 30 r3 of Inl e \<Rightarrow> (Some e, fs) | Inr (daily_balances, r4) \<Rightarrow>
      case gen_fx_rates 90 r4 of Inl e \<Rightarrow> (Some e, fs) | Inr (fx_rates, r5) \<Rightarrow>
        then_write (then_write (then_write (then_write
          (write_csv_in dir ''customer.csv'' customers customer_fieldnames fs)
          (write_csv_in dir ''account.csv'' accounts account_fieldnames))
          (write_csv_in dir ''transaction.csv'' transactions transaction_fieldnames))
          (write_csv_in dir ''daily_balance.csv'' daily_balances daily_balance_fieldnames))
          (write_csv_in dir ''fx_rate.csv'' fx_rates fx_rate_fieldnames))"

definition variant_main :: "probs \<Rightarrow> string \<Rightarrow> filesystem \<Rightarrow> rng \<Rightarrow> error option \<times> filesystem" where
  "variant_main P dir =
     entry_point (variant_generate_customers P) (variant_generate_accounts P)
       (variant_generate_transactions P) generate_daily_balances (variant_generate_fx_rates P) dir"

text \<open>
  The source the defect script needs in order to make the draws of \<open>r\<close> where the clean
  script makes them. An iteration of the clean script takes \<open>a\<close> draws; the same iteration
  of the defect script takes one draw per slot of a pattern: at a clean slot the clean draw
  of that index, at a decision slot the next of the \<open>b\<close> decision draws of the iteration,
  which come from a sequence \<open>ds\<close> of their own. After \<open>n\<close> iterations the source goes on
  as \<open>rest\<close> of what is left of the two sequences.
\<close>

datatype slot = Clean nat | Decision nat

definition slot_draw :: "nat \<Rightarrow> nat \<Rightarrow> rng \<Rightarrow> rng \<Rightarrow> nat \<Rightarrow> slot \<Rightarrow> nat" where
  "slot_draw a b ds r t s = (case s of Clean p \<Rightarrow> r (a * t + p) | Decision q \<Rightarrow> ds (b * t + q))"

definition with_decisions ::
  "slot list \<Rightarrow> nat \<Rightarrow> nat \<Rightarrow> nat \<Rightarrow> (rng \<Rightarrow> rng \<Rightarrow> rng) \<Rightarrow> rng \<Rightarrow> rng \<Rightarrow> rng" where
  "with_decisions pat a b n rest ds r =
     (\<lambda>i. if i < n * length pat
          then slot_draw a b ds r (i div length pat) (pat ! (i mod length pat))
          else rest (shift (b * n) ds) (shift (a * n) r) (i - n * length pat))"

definition customer_pattern :: "slot list" where
  "customer_pattern = [Clean 0, Clean 1, Decision 0, Decision 1, Decision 2, Decision 3,
     Clean 2, Clean 3, Clean 4, Clean 5, Clean 6, Decision 4, Clean 7, Clean 8, Clean 9]"

definition account_pattern :: "slot list" where
  "account_pattern = [Decision 0, Clean 0, Decision 1, Clean 1, Clean 2, Clean 3, Clean 4,
     Clean 5, Clean 6]"

definition transaction_pattern :: "slot list" where
  "transaction_pattern = [Clean 0, Decision 0, Clean 1, Clean 2, Clean 3, Clean 4, Clean 5,
     Clean 6]"

definition fx_pattern :: "slot list" where
  "fx_pattern = [Clean 0, Decision 0, Clean 1]"

text \<open>
  A draw at which no defect decision of the given probabilities fires, and a sequence of
  such draws.
\<close>

definition clean_draw :: "probs \<Rightarrow> nat \<Rightarrow> bool" where
  "clean_draw P D =
     (\<not> random_of_draw D < issue_rate P \<and> missing_id P < random_of_draw D \<and>
      missing_name P < random_of_draw D \<and> missing_country P < random_of_draw D \<and>
      \<not> random_of_draw D < orphan P \<and> \<not> random_of_draw D < bad_rate P)"

definition clean_decisions :: "probs \<Rightarrow> rng \<Rightarrow> bool" where
  "clean_decisions P ds = (\<forall>n. clean_draw P (ds n))"

text \<open>The number of iterations of \<^verbatim>\<open>generate_accounts\<close>.\<close>

definition account_iterations :: "pydict list \<Rightarrow> rat \<Rightarrow> nat" where
  "account_iterations customers R =
     (case int_of_float (fmul (of_nat (length customers)) R) of Inl e \<Rightarrow> 0 | Inr c \<Rightarrow> nat c)"

text \<open>
  The source of the defect entry point for the draws \<open>r\<close> of the clean entry point and the
  decision draws \<open>ds\<close>: 1000 customers, 1500 accounts, 15000 transactions, 45000 daily
  balances (one draw each, no decision) and 630 rates.
\<close>

definition main_source :: "rng \<Rightarrow> rng \<Rightarrow> rng" where
  "main_source =
     with_decisions customer_pattern 10 5 1000
       (with_decisions account_pattern 7 2 1500
         (with_decisions transaction_pattern 7 1 15000
           (with_decisions [Clean 0] 1 0 45000
             (with_decisions fx_pattern 2 1 630 (\<lambda>ds r. r)))))"





text \<open>A record has the field \<open>k\<close> and its value satisfies \<open>P\<close>.\<close>

definition field_is :: "(string \<Rightarrow> bool) \<Rightarrow> pydict \<Rightarrow> string \<Rightarrow> bool" where
  "field_is P d k = (case getitem d k of Inr v \<Rightarrow> P v | Inl e \<Rightarrow> False)"







section \<open>Basic facts about the generator monad and the loops\<close>

lemma gbind_Inr_iff:
  "gbind m f r = Inr (y, r') \<longleftrightarrow> (\<exists>x r1. m r = Inr (x, r1) \<and> f x r1 = Inr (y, r'))"
  by (auto simp: gbind_def split: sum.splits)

lemma gbind_InrE:
  assumes "gbind m f r = Inr (y, r')"
  obtains x r1 where "m r = Inr (x, r1)" and "f x r1 = Inr (y, r')"
  using assms by (auto simp: gbind_Inr_iff)

lemma greturn_Inr_iff [simp]: "greturn x r = Inr (y, r') \<longleftrightarrow> y = x \<and> r' = r"
  by (auto simp: greturn_def)

lemma graise_not_Inr [simp]: "graise e r \<noteq> Inr p"
  by (simp add: graise_def)

lemma lift_Inr_iff [simp]: "lift v r = Inr (y, r') \<longleftrightarrow> v = Inr y \<and> r' = r"
  by (auto simp: lift_def split: sum.splits)

lemma choice_Inr_iff:
  "choice xs r = Inr (x, r') \<longleftrightarrow> xs \<noteq> [] \<and> x = xs ! (r 0 mod length xs) \<and> r' = (\<lambda>n. r (Suc n))"
  by (auto simp: choice_def gbind_def draw_def greturn_def graise_def)

lemma choice_InrD: "choice xs r = Inr (x, r') \<Longrightarrow> x \<in> set xs"
  by (auto simp: choice_Inr_iff)

lemma choice_total: "xs \<noteq> [] \<Longrightarrow> \<exists>x r'. choice xs r = Inr (x, r') \<and> x \<in> set xs"
  by (auto simp: choice_Inr_iff)

lemma random_Inr_iff:
  "random r = Inr (u, r') \<longleftrightarrow> u = random_of_draw (r 0) \<and> r' = (\<lambda>n. r (Suc n))"
  by (auto simp: random_def gbind_def draw_def greturn_def)

lemma randint_Inr_iff:
  "randint a b r = Inr (x, r') \<longleftrightarrow> a \<le> b \<and> x = a + int (r 0) mod (b - a + 1) \<and> r' = (\<lambda>n. r (Suc n))"
  by (auto simp: randint_def gbind_def draw_def greturn_def graise_def)

lemma randint_InrD: "randint a b r = Inr (x, r') \<Longrightarrow> a \<le> x \<and> x \<le> b"
  by (auto simp: randint_Inr_iff intro: pos_mod_sign) (smt (verit) pos_mod_bound)

lemma uniform_Inr_iff:
  "uniform a b r = Inr (x, r') \<longleftrightarrow>
     x = fadd a (fmul (fsub b a) (random_of_draw (r 0))) \<and> r' = (\<lambda>n. r (Suc n))"
  by (auto simp: uniform_def gbind_Inr_iff random_Inr_iff)

lemma for_loop_Inr:
  "for_loop i n body acc r = Inr (xs, r') \<Longrightarrow>
     \<exists>ys. xs = acc @ ys \<and> length ys = n \<and>
          (\<forall>k<n. \<exists>r1 r2. body (i + k) r1 = Inr (ys ! k, r2))"
proof (induction n arbitrary: i acc r)
  case 0
  then show ?case by simp
next
  case (Suc n)
  from Suc.prems obtain x r1 where b: "body i r = Inr (x, r1)"
    and l: "for_loop (Suc i) n body (acc @ [x]) r1 = Inr (xs, r')"
    by (auto elim: gbind_InrE)
  from Suc.IH[OF l] obtain ys where ys: "xs = (acc @ [x]) @ ys" "length ys = n"
    "\<forall>k<n. \<exists>r1 r2. body (Suc i + k) r1 = Inr (ys ! k, r2)" by blast
  have "\<forall>k<Suc n. \<exists>r1 r2. body (i + k) r1 = Inr ((x # ys) ! k, r2)"
  proof (intro allI impI)
    fix k assume "k < Suc n"
    show "\<exists>r1 r2. body (i + k) r1 = Inr ((x # ys) ! k, r2)"
    proof (cases k)
      case 0 with b show ?thesis by auto
    next
      case (Suc j)
      with \<open>k < Suc n\<close> ys(3) show ?thesis by auto
    qed
  qed
  with ys show ?case by (intro exI[of _ "x # ys"]) auto
qed

lemma for_loop_total:
  "(\<And>k r. k < n \<Longrightarrow> \<exists>x r'. body (i + k) r = Inr (x, r')) \<Longrightarrow>
     \<exists>xs r'. for_loop i n body acc r = Inr (xs, r')"
proof (induction n arbitrary: i acc r)
  case 0
  then show ?case by simp
next
  case (Suc n)
  from Suc.prems[of 0 r] obtain x r1 where b: "body i r = Inr (x, r1)" by auto
  have "\<exists>xs r'. for_loop (Suc i) n body (acc @ [x]) r1 = Inr (xs, r')"
    by (rule Suc.IH) (use Suc.prems[of "Suc _"] in auto)
  with b show ?case by (auto simp: gbind_Inr_iff)
qed


lemma getitem_Inr_iff: "getitem d k = Inr v \<longleftrightarrow> map_of d k = Some v"
  by (auto simp: getitem_def split: option.splits)

lemma transaction_body_inherits:
  assumes "transaction_body accounts i r = Inr (t, r')"
  shows "\<exists>a \<in> set accounts. \<exists>aid cur. getitem a ''account_id'' = Inr aid \<and> getitem t ''account_id'' = Inr aid
            \<and> getitem a ''currency'' = Inr cur \<and> getitem t ''currency'' = Inr cur"
  using assms
  by (auto simp: transaction_body_def gbind_Inr_iff getitem_Inr_iff dest!: choice_InrD)

lemma pure_transaction_body_inherits:
  assumes "pure_transaction_body accounts i r = Inr (t, r')"
  shows "\<exists>a \<in> set accounts. \<exists>aid cur. getitem a ''account_id'' = Inr aid \<and> getitem t ''account_id'' = Inr aid
            \<and> getitem a ''currency'' = Inr cur \<and> getitem t ''currency'' = Inr cur"
  using assms
  by (auto simp: pure_transaction_body_def gbind_Inr_iff getitem_Inr_iff dest!: choice_InrD)

lemma for_range_Inr:
  assumes "for_range count body r = Inr (xs, r')"
  shows "length xs = nat count \<and> (\<forall>k < nat count. \<exists>r1 r2. body k r1 = Inr (xs ! k, r2))"
  using for_loop_Inr[of 0 "nat count" body "[]" r xs r'] assms by (auto simp: for_range_def)

lemma for_range_elem:
  assumes "for_range count body r = Inr (xs, r')" and "x \<in> set xs"
  shows "\<exists>k r1 r2. k < nat count \<and> body k r1 = Inr (x, r2)"
proof -
  from assms(2) obtain k where "k < length xs" "xs ! k = x" by (auto simp: in_set_conv_nth)
  with for_range_Inr[OF assms(1)] show ?thesis by metis
qed

section \<open>Totality of the generators\<close>

lemma totalD: "total m \<Longrightarrow> \<exists>x r'. m r = Inr (x, r')"
  by (simp add: total_def)

lemma total_greturn [simp]: "total (greturn x)"
  by (simp add: total_def)

lemma total_lift [simp]: "total (lift (Inr x))"
  by (simp add: total_def)

lemma total_gbind:
  assumes "total m" and "\<And>r x r'. m r = Inr (x, r') \<Longrightarrow> total (f x)"
  shows "total (gbind m f)"
  unfolding total_def
proof
  fix r
  from totalD[OF assms(1), of r] obtain x r1 where m: "m r = Inr (x, r1)" by blast
  from totalD[OF assms(2)[OF m], of r1] obtain y r2 where "f x r1 = Inr (y, r2)" by blast
  with m show "\<exists>y r'. gbind m f r = Inr (y, r')" by (auto simp: gbind_Inr_iff)
qed

lemma total_random [simp]: "total random"
  by (simp add: total_def random_Inr_iff)

lemma total_uniform [simp]: "total (uniform a b)"
  by (simp add: total_def uniform_Inr_iff)

lemma total_choice: "xs \<noteq> [] \<Longrightarrow> total (choice xs)"
  by (simp add: total_def choice_Inr_iff)

lemma total_randint: "a \<le> b \<Longrightarrow> total (randint a b)"
  by (simp add: total_def randint_Inr_iff)

lemma total_for_loop:
  assumes "\<And>k. total (body k)"
  shows "total (for_loop i n body acc)"
  unfolding total_def using for_loop_total[of n body i acc] assms by (auto simp: total_def)

lemma total_for_range: "(\<And>k. total (body k)) \<Longrightarrow> total (for_range count body)"
  by (simp add: for_range_def total_for_loop)

lemma pools_nonempty [simp]:
  "FIRST_NAMES \<noteq> []" "LAST_NAMES \<noteq> []" "COUNTRIES \<noteq> []" "KYC_STATUSES \<noteq> []"
  "ACCOUNT_TYPES \<noteq> []" "TRANSACTION_TYPES \<noteq> []" "CURRENCIES \<noteq> []" "EMAIL_DOMAINS \<noteq> []"
  "ACCOUNT_STATUSES \<noteq> []" "CHANNELS \<noteq> []" "TRANSACTION_STATUSES \<noteq> []" "FX_SOURCES \<noteq> []"
  "BAD_PHONES \<noteq> []" "BAD_DATES \<noteq> []" "BAD_RATES \<noteq> []" "bad_emails f l \<noteq> []"
  by (simp_all add: FIRST_NAMES_def LAST_NAMES_def COUNTRIES_def KYC_STATUSES_def
      ACCOUNT_TYPES_def TRANSACTION_TYPES_def CURRENCIES_def EMAIL_DOMAINS_def
      ACCOUNT_STATUSES_def CHANNELS_def TRANSACTION_STATUSES_def FX_SOURCES_def
      BAD_PHONES_def BAD_DATES_def BAD_RATES_def bad_emails_def)

lemma ymd2ord_TODAY: "ymd2ord TODAY = 739638"
  by (simp add: ymd2ord_def TODAY_def days_before_year_def days_before_month_def
      DAYS_BEFORE_MONTH_def is_leap_def)

lemma ymd2ord_epoch: "ymd2ord (1970, 1, 1) = 719163"
  by (simp add: ymd2ord_def days_before_year_def days_before_month_def
      DAYS_BEFORE_MONTH_def is_leap_def)

lemma total_and_random_below [simp]: "total (and_random_below b p)"
  by (auto simp: and_random_below_def intro!: total_gbind)

lemma total_keep_if_random_above [simp]: "total (keep_if_random_above p x)"
  by (auto simp: keep_if_random_above_def intro!: total_gbind)

lemma date_plus_days_TODAY:
  "- 739637 \<le> k \<Longrightarrow> k \<le> 2912421 \<Longrightarrow> date_plus_days TODAY k = Inr (ord2ymd (739638 + k))"
  by (simp add: date_plus_days_def ymd2ord_TODAY MAXORDINAL_def)

lemma date_plus_days_epoch:
  "- 719162 \<le> k \<Longrightarrow> k \<le> 2932896 \<Longrightarrow> date_plus_days (1970, 1, 1) k = Inr (ord2ymd (719163 + k))"
  by (simp add: date_plus_days_def ymd2ord_epoch MAXORDINAL_def)

lemma total_generate_date_TODAY:
  assumes "0 \<le> d" "d \<le> 739637"
  shows "total (generate_date TODAY d b)"
  unfolding generate_date_def using assms
  by (auto intro!: total_gbind total_choice total_randint dest!: randint_InrD simp: date_plus_days_TODAY)

lemma total_generate_date_epoch:
  assumes "0 \<le> d" "d \<le> 719162"
  shows "total (generate_date (1970, 1, 1) d b)"
  unfolding generate_date_def using assms
  by (auto intro!: total_gbind total_choice total_randint dest!: randint_InrD simp: date_plus_days_epoch)

lemma total_pure_generate_date_TODAY:
  assumes "0 \<le> d" "d \<le> 739637"
  shows "total (pure_generate_date TODAY d)"
  unfolding pure_generate_date_def using assms
  by (auto intro!: total_gbind total_choice total_randint dest!: randint_InrD simp: date_plus_days_TODAY)

lemma total_pure_generate_date_epoch:
  assumes "0 \<le> d" "d \<le> 719162"
  shows "total (pure_generate_date (1970, 1, 1) d)"
  unfolding pure_generate_date_def using assms
  by (auto intro!: total_gbind total_choice total_randint dest!: randint_InrD simp: date_plus_days_epoch)

lemma total_generate_email [simp]: "total (generate_email f l b)"
  unfolding generate_email_def by (auto intro!: total_gbind total_choice)

lemma total_generate_phone [simp]: "total (generate_phone b)"
  unfolding generate_phone_def by (auto intro!: total_gbind total_choice total_randint)

lemma total_pure_generate_email [simp]: "total (pure_generate_email f l)"
  unfolding pure_generate_email_def by (auto intro!: total_gbind total_choice)

lemma total_pure_generate_phone [simp]: "total pure_generate_phone"
  unfolding pure_generate_phone_def by (auto intro!: total_gbind total_choice total_randint)

lemma total_customer_body: "total (customer_body i)"
  unfolding customer_body_def Let_def
  by (auto intro!: total_gbind total_choice total_generate_date_TODAY total_generate_date_epoch)

lemma total_pure_customer_body: "total (pure_customer_body i)"
  unfolding pure_customer_body_def Let_def
  by (auto intro!: total_gbind total_choice total_pure_generate_date_TODAY total_pure_generate_date_epoch)

lemma has_keys_getitem:
  assumes "has_keys ks d" and "k \<in> set ks"
  shows "\<exists>v. getitem d k = Inr v"
proof -
  from assms have "k \<in> fst ` set d" by (auto simp: has_keys_def list_all_iff)
  then have "map_of d k \<noteq> None" by (simp add: map_of_eq_None_iff)
  then show ?thesis by (auto simp: getitem_Inr_iff)
qed

lemma total_lift_getitem: "has_keys ks d \<Longrightarrow> k \<in> set ks \<Longrightarrow> total (lift (getitem d k))"
  using has_keys_getitem[of ks d k] by auto

lemma total_lift_getitem1: "has_keys [k] d \<Longrightarrow> total (lift (getitem d k))"
  by (rule total_lift_getitem[of "[k]"]) auto

lemma total_transaction_body:
  assumes "accounts \<noteq> []" "list_all (has_keys [''account_id'', ''currency'']) accounts"
  shows "total (transaction_body accounts i)"
  unfolding transaction_body_def using assms
  by (auto intro!: total_gbind total_choice total_generate_date_TODAY dest!: choice_InrD
      intro: total_lift_getitem simp: list_all_iff)

lemma total_pure_transaction_body:
  assumes "accounts \<noteq> []" "list_all (has_keys [''account_id'', ''currency'']) accounts"
  shows "total (pure_transaction_body accounts i)"
  unfolding pure_transaction_body_def using assms
  by (auto intro!: total_gbind total_choice total_pure_generate_date_TODAY dest!: choice_InrD
      intro: total_lift_getitem simp: list_all_iff)

lemma total_account_body:
  assumes "customers \<noteq> []" "list_all (has_keys [''customer_id'']) customers"
  shows "total (account_body customers i)"
  unfolding account_body_def using assms
  by (auto intro!: total_gbind total_choice total_generate_date_TODAY total_randint total_lift_getitem1
      dest!: choice_InrD simp: list_all_iff)

lemma total_pure_account_body:
  assumes "customers \<noteq> []" "list_all (has_keys [''customer_id'']) customers"
  shows "total (pure_account_body customers i)"
  unfolding pure_account_body_def using assms
  by (auto intro!: total_gbind total_choice total_pure_generate_date_TODAY total_randint dest!: choice_InrD
      intro: total_lift_getitem simp: list_all_iff)

section \<open>Transactions inherit account and currency\<close>

lemma sample_accounts_keys:
  "list_all (has_keys [''account_id'', ''currency'']) sample_accounts"
  by (simp add: sample_accounts_def has_keys_def)

lemma total_generate_transactions:
  assumes "accounts \<noteq> []" "list_all (has_keys [''account_id'', ''currency'']) accounts"
  shows "total (generate_transactions accounts tpa)"
  unfolding generate_transactions_def
  by (rule total_for_range) (rule total_transaction_body[OF assms])

lemma total_pure_generate_transactions:
  assumes "accounts \<noteq> []" "list_all (has_keys [''account_id'', ''currency'']) accounts"
  shows "total (pure_generate_transactions accounts tpa)"
  unfolding pure_generate_transactions_def
  by (rule total_for_range) (rule total_pure_transaction_body[OF assms])

text \<open>
  C7. Every transaction that \<^verbatim>\<open>generate_transactions\<close> returns (in either script) carries
  the \<^verbatim>\<open>account_id\<close> and the \<^verbatim>\<open>currency\<close> of one and the same record of the supplied
  account collection.
\<close>

theorem transaction_currency_inheritance:
  assumes "generate_transactions accounts tpa r = Inr (txns, r')
           \<or> pure_generate_transactions accounts tpa r = Inr (txns, r')"
    and "t \<in> set txns"
  shows "\<exists>a \<in> set accounts. \<exists>aid cur.
           getitem a ''account_id'' = Inr aid \<and> getitem t ''account_id'' = Inr aid \<and>
           getitem a ''currency'' = Inr cur \<and> getitem t ''currency'' = Inr cur"
  using assms(1)
proof
  assume g: "generate_transactions accounts tpa r = Inr (txns, r')"
  from for_range_elem[OF g[unfolded generate_transactions_def] assms(2)]
  obtain k r1 r2 where "transaction_body accounts k r1 = Inr (t, r2)" by blast
  then show ?thesis by (rule transaction_body_inherits)
next
  assume g: "pure_generate_transactions accounts tpa r = Inr (txns, r')"
  from for_range_elem[OF g[unfolded pure_generate_transactions_def] assms(2)]
  obtain k r1 r2 where "pure_transaction_body accounts k r1 = Inr (t, r2)" by blast
  then show ?thesis by (rule pure_transaction_body_inherits)
qed

theorem transaction_currency_inheritance_witness:
  "\<exists>txns r' t. generate_transactions sample_accounts 3 (\<lambda>n. 5 * n + 1) = Inr (txns, r') \<and>
     length txns = 6 \<and> t \<in> set txns \<and>
     (\<exists>a \<in> set sample_accounts. \<exists>aid cur.
        getitem a ''account_id'' = Inr aid \<and> getitem t ''account_id'' = Inr aid \<and>
        getitem a ''currency'' = Inr cur \<and> getitem t ''currency'' = Inr cur)"
proof -
  have ne: "sample_accounts \<noteq> []" by (simp add: sample_accounts_def)
  from totalD[OF total_generate_transactions[OF ne sample_accounts_keys]]
  obtain txns r' where g: "generate_transactions sample_accounts 3 (\<lambda>n. 5 * n + 1) = Inr (txns, r')"
    by blast
  then have len: "length txns = 6"
    unfolding generate_transactions_def by (auto dest!: for_range_Inr simp: sample_accounts_def)
  then have mem: "hd txns \<in> set txns" by (cases txns) auto
  from transaction_currency_inheritance[OF disjI1[OF g] mem] g len mem
  show ?thesis by blast
qed

section \<open>The daily-balance loops in closed form\<close>

lemma uniform_eq: "uniform a b r = Inr (uniform_of_draw a b (r 0), (\<lambda>n. r (Suc n)))"
  by (simp add: uniform_Inr_iff uniform_of_draw_def)

lemma walk_shift:
  "walk (fadd base (uniform_of_draw (- 1000) 1000 (r 0))) (\<lambda>i. r (Suc i)) k = walk base r (Suc k)"
  by (induction k) simp_all

lemma date_plus_days_Inr_iff:
  "date_plus_days dt k = Inr d \<longleftrightarrow>
     1 \<le> ymd2ord dt + k \<and> ymd2ord dt + k \<le> MAXORDINAL \<and> d = ord2ymd (ymd2ord dt + k)"
  by (auto simp: date_plus_days_def Let_def)

lemma balance_days_Inr:
  assumes "balance_days account d n base balances r = Inr (bs, r')"
  shows "r' = (\<lambda>i. r (i + n)) \<and>
         bs = balances @ map (\<lambda>k. balance_row account (length balances + k) (d + k)
                                     (walk base r k) (walk base r (Suc k))) [0..<n]"
  using assms
proof (induction n arbitrary: d base balances r)
  case 0
  then show ?case by simp
next
  case (Suc n)
  let ?delta = "uniform_of_draw (- 1000) 1000 (r 0)"
  let ?r1 = "\<lambda>i. r (Suc i)"
  let ?row = "balance_row account (length balances) d base (fadd base ?delta)"
  from Suc.prems have rec: "balance_days account (Suc d) n (fadd base ?delta) (balances @ [?row]) ?r1 = Inr (bs, r')"
    by (auto simp: gbind_Inr_iff uniform_Inr_iff uniform_of_draw_def balance_row_def
        date_plus_days_Inr_iff getitem_def split: option.splits)
  from Suc.IH[OF rec] have r': "r' = (\<lambda>i. r (i + Suc n))"
    and bs: "bs = (balances @ [?row]) @
       map (\<lambda>k. balance_row account (length (balances @ [?row]) + k) (Suc d + k)
                  (walk (fadd base ?delta) ?r1 k) (walk (fadd base ?delta) ?r1 (Suc k))) [0..<n]"
    by simp_all
  have "map (\<lambda>k. balance_row account (length balances + k) (d + k) (walk base r k) (walk base r (Suc k))) [0..<Suc n]
        = ?row # map (\<lambda>k. balance_row account (length (balances @ [?row]) + k) (Suc d + k)
                  (walk (fadd base ?delta) ?r1 k) (walk (fadd base ?delta) ?r1 (Suc k))) [0..<n]"
    by (simp only: map_upt_Suc walk_shift) simp
  with r' bs show ?case by simp
qed

lemma balance_accounts_Inr:
  assumes "balance_accounts accounts days balances r = Inr (bs, r')"
  shows "r' = (\<lambda>i. r (i + length accounts * days)) \<and>
         bs = balances @ balance_rows accounts (length balances) days r \<and>
         (\<forall>a \<in> set accounts. \<exists>b v. getitem a ''balance'' = Inr b \<and> py_float b = Inr v)"
  using assms
proof (induction accounts arbitrary: balances r)
  case Nil
  then show ?case by simp
next
  case (Cons a rest)
  from Cons.prems obtain b v bs1 r1 where
    b: "getitem a ''balance'' = Inr b" and v: "py_float b = Inr v"
    and d: "balance_days a 0 days v balances r = Inr (bs1, r1)"
    and rec: "balance_accounts rest days bs1 r1 = Inr (bs, r')"
    by (auto simp: gbind_Inr_iff)
  have base: "account_base a = v" by (simp add: account_base_def b v)
  from balance_days_Inr[OF d] have r1: "r1 = (\<lambda>i. r (i + days))"
    and bs1: "bs1 = balances @ map (\<lambda>k. balance_row a (length balances + k) k
                                     (walk v r k) (walk v r (Suc k))) [0..<days]"
    by simp_all
  from Cons.IH[OF rec] have "r' = (\<lambda>i. r1 (i + length rest * days))"
    and "bs = bs1 @ balance_rows rest (length bs1) days r1"
    and "\<forall>a \<in> set rest. \<exists>b v. getitem a ''balance'' = Inr b \<and> py_float b = Inr v"
    by simp_all
  with r1 bs1 b v base show ?case by (simp add: ac_simps)
qed

lemma length_balance_rows: "length (balance_rows accounts idx days r) = length accounts * days"
  by (induction accounts arbitrary: idx r) simp_all

lemma balance_rows_nth:
  assumes "j < length accounts" and "k < days"
  shows "balance_rows accounts idx days r ! (j * days + k) =
           balance_row (accounts ! j) (idx + j * days + k) k
             (walk (account_base (accounts ! j)) (\<lambda>i. r (i + j * days)) k)
             (walk (account_base (accounts ! j)) (\<lambda>i. r (i + j * days)) (Suc k))"
  using assms
proof (induction accounts arbitrary: j idx r)
  case Nil
  then show ?case by simp
next
  case (Cons a rest)
  show ?case
  proof (cases j)
    case 0
    with Cons.prems show ?thesis by (simp add: nth_append del: walk.simps(2))
  next
    case (Suc j')
    with Cons.prems have j': "j' < length rest" by simp
    have "(days + j' * days + k) - days = j' * days + k" by simp
    with Suc Cons.prems Cons.IH[OF j' Cons.prems(2), of "idx + days" "\<lambda>i. r (i + days)"]
    show ?thesis by (simp add: nth_append ac_simps del: walk.simps(2))
  qed
qed

section \<open>Rounding to a double\<close>

lemma round_half_even_error: "\<bar>of_int (round_half_even y) - y\<bar> \<le> 1 / 2"
proof -
  have "of_int \<lfloor>y\<rfloor> \<le> y" "y < of_int \<lfloor>y\<rfloor> + 1" by linarith+
  then show ?thesis by (auto simp: round_half_even_def Let_def)
qed

lemma round_half_even_near:
  assumes "\<bar>y - of_int n\<bar> < 1 / 2"
  shows "round_half_even y = n"
proof -
  have "\<bar>of_int (round_half_even y) - y\<bar> \<le> 1 / 2" by (rule round_half_even_error)
  with assms have "\<bar>(of_int (round_half_even y) :: rat) - of_int n\<bar> < 1" by linarith
  then have "\<bar>(of_int (round_half_even y - n) :: rat)\<bar> < 1" by simp
  then have "\<bar>round_half_even y - n\<bar> < 1" by (metis of_int_abs of_int_less_1_iff)
  then show ?thesis by simp
qed

lemma round_half_even_nonneg: "0 \<le> y \<Longrightarrow> 0 \<le> round_half_even y"
  by (auto simp: round_half_even_def Let_def)

lemma ilog2_bounds:
  assumes "0 < x"
  shows "power_int 2 (ilog2 x) \<le> x" and "x < power_int 2 (ilog2 x + 1)"
proof -
  obtain p q where pq: "quotient_of x = (p, q)" by (cases "quotient_of x")
  then have q: "0 < q" and x: "x = of_int p / of_int q"
    by (auto simp: quotient_of_denom_pos quotient_of_div)
  with assms have p: "0 < p" by (simp add: zero_less_divide_iff)
  define bp where "bp = bitlen p"
  define bq where "bq = bitlen q"
  have bp0: "0 < bp" using p bitlen_eq_zero_iff[of p] bitlen_nonneg[of p] by (simp add: bp_def)
  have bq0: "0 < bq" using q bitlen_eq_zero_iff[of q] bitlen_nonneg[of q] by (simp add: bq_def)
  have bp: "0 < bp" "2 ^ nat (bp - 1) \<le> p" "p < 2 ^ nat bp"
    using bitlen_bounds[OF p] bp0 by (simp_all add: bp_def)
  have bq: "0 < bq" "2 ^ nat (bq - 1) \<le> q" "q < 2 ^ nat bq"
    using bitlen_bounds[OF q] bq0 by (simp_all add: bq_def)
  have P1: "(2::rat) powi (bp - 1) \<le> of_int p"
  proof -
    have "(of_int (2 ^ nat (bp - 1)) :: rat) \<le> of_int p" using bp(2) by (simp only: of_int_le_iff)
    then show ?thesis using bp(1) by (simp add: power_int_def)
  qed
  have P2: "of_int p < (2::rat) powi bp"
  proof -
    have "(of_int p :: rat) < of_int (2 ^ nat bp)" using bp(3) by (simp only: of_int_less_iff)
    then show ?thesis using bp(1) by (simp add: power_int_def)
  qed
  have Q1: "(2::rat) powi (bq - 1) \<le> of_int q"
  proof -
    have "(of_int (2 ^ nat (bq - 1)) :: rat) \<le> of_int q" using bq(2) by (simp only: of_int_le_iff)
    then show ?thesis using bq(1) by (simp add: power_int_def)
  qed
  have Q2: "of_int q < (2::rat) powi bq"
  proof -
    have "(of_int q :: rat) < of_int (2 ^ nat bq)" using bq(3) by (simp only: of_int_less_iff)
    then show ?thesis using bq(1) by (simp add: power_int_def)
  qed
  have qpos: "(0::rat) < of_int q" using q by simp
  have up: "x < 2 powi (bp - bq + 1)"
  proof -
    have "x * of_int q = of_int p" using x qpos by simp
    also have "\<dots> < 2 powi bp" by (rule P2)
    also have "\<dots> = 2 powi (bp - bq + 1) * 2 powi (bq - 1)"
      by (simp add: power_int_add[symmetric])
    also have "\<dots> \<le> 2 powi (bp - bq + 1) * of_int q"
      using Q1 by (intro mult_left_mono) auto
    finally show ?thesis using qpos by simp
  qed
  have lo: "2 powi (bp - bq - 1) < x"
  proof -
    have "2 powi (bp - bq - 1) * of_int q < 2 powi (bp - bq - 1) * (2::rat) powi bq"
      using Q2 by (intro mult_strict_left_mono) auto
    also have "\<dots> = 2 powi (bp - 1)" by (simp add: power_int_add[symmetric])
    also have "\<dots> \<le> of_int p" by (rule P1)
    also have "\<dots> = x * of_int q" using x qpos by simp
    finally show ?thesis using qpos by simp
  qed
  have il: "ilog2 x = (if 2 powi (bp - bq) \<le> x then bp - bq else bp - bq - 1)"
    by (simp add: ilog2_def pq bp_def bq_def Let_def)
  show "power_int 2 (ilog2 x) \<le> x" using lo by (auto simp: il)
  show "x < power_int 2 (ilog2 x + 1)" using up by (auto simp: il not_le)
qed

lemma to_double_error:
  "\<bar>to_double x - x\<bar> \<le> \<bar>x\<bar> / 2 ^ 53"
proof (cases "x = 0")
  case True
  then show ?thesis by (simp add: to_double_def)
next
  case False
  define e where "e = ilog2 \<bar>x\<bar> - 52"
  define R where "R = round_half_even (\<bar>x\<bar> / 2 powi e)"
  have ax: "0 < \<bar>x\<bar>" using False by simp
  have epos: "(0::rat) < 2 powi e" by simp
  have td: "to_double x = sgn x * of_int R * 2 powi e"
    using False by (simp add: to_double_def e_def R_def Let_def)
  have "\<bar>to_double x - x\<bar> = \<bar>sgn x * (of_int R * 2 powi e - \<bar>x\<bar>)\<bar>"
    by (simp add: td algebra_simps flip: abs_sgn) (metis mult.commute mult_sgn_abs)
  also have "\<dots> = \<bar>of_int R * 2 powi e - \<bar>x\<bar>\<bar>"
    using False by (simp add: abs_mult abs_sgn_eq)
  also have "\<dots> = \<bar>of_int R - \<bar>x\<bar> / 2 powi e\<bar> * 2 powi e"
  proof -
    have "of_int R * 2 powi e - \<bar>x\<bar> = (of_int R - \<bar>x\<bar> / 2 powi e) * 2 powi e"
      using epos by (simp add: field_simps)
    then show ?thesis using epos by (simp add: abs_mult)
  qed
  also have "\<dots> \<le> 1 / 2 * 2 powi e"
    unfolding R_def using round_half_even_error epos by (intro mult_right_mono) auto
  also have "\<dots> = 2 powi (ilog2 \<bar>x\<bar>) / 2 ^ 53"
  proof -
    have "(2::rat) powi e = 2 powi (ilog2 \<bar>x\<bar>) / 2 powi 52"
      unfolding e_def by (rule power_int_diff) simp
    then show ?thesis by simp
  qed
  also have "\<dots> \<le> \<bar>x\<bar> / 2 ^ 53"
    using ilog2_bounds(1)[OF ax] by (simp add: divide_right_mono)
  finally show ?thesis .
qed

lemma to_double_nonneg: "0 \<le> x \<Longrightarrow> 0 \<le> to_double x"
  by (auto simp: to_double_def Let_def sgn_if intro!: mult_nonneg_nonneg round_half_even_nonneg divide_nonneg_nonneg)

lemma to_double_le:
  assumes "0 \<le> x"
  shows "to_double x \<le> 2 * x"
proof -
  have "\<bar>x\<bar> / 2 ^ 53 \<le> x" using assms by (simp add: field_simps)
  with to_double_error[of x] show ?thesis by linarith
qed

section \<open>Decimal strings\<close>

lemma lt10_cases:
  "(d::nat) < 10 \<Longrightarrow> d = 0 \<or> d = 1 \<or> d = 2 \<or> d = 3 \<or> d = 4 \<or> d = 5 \<or> d = 6 \<or> d = 7 \<or> d = 8 \<or> d = 9"
  by arith

lemma is_digit_digit_char: "d < 10 \<Longrightarrow> is_digit (digit_char d)"
  by (drule lt10_cases) (auto simp: is_digit_def digit_char_def)

lemma digit_val_digit_char: "d < 10 \<Longrightarrow> digit_val (digit_char d) = d"
  by (drule lt10_cases) (auto simp: digit_val_def digit_char_def upt_conv_Cons)

lemma not_digit_chars [simp]: "\<not> is_digit CHR ''.''" "\<not> is_digit CHR ''-''" "\<not> is_digit CHR ''+''"
  by (simp_all add: is_digit_def)

lemma str_nat_digits: "list_all is_digit (str_nat n)"
  by (induction n rule: str_nat.induct) (subst str_nat.simps, auto simp: is_digit_digit_char)

lemma str_nat_nonempty [simp]: "str_nat n \<noteq> []"
  by (subst str_nat.simps) simp

lemma nat_of_digits_snoc: "nat_of_digits (s @ [c]) = 10 * nat_of_digits s + digit_val c"
  by (simp add: nat_of_digits_def)

lemma nat_of_digits_str_nat: "nat_of_digits (str_nat n) = n"
proof (induction n rule: str_nat.induct)
  case (1 n)
  show ?case
  proof (cases "n < 10")
    case True
    then show ?thesis
      by (subst str_nat.simps) (simp add: nat_of_digits_def digit_val_digit_char)
  next
    case False
    with 1 show ?thesis
      by (subst str_nat.simps) (simp add: nat_of_digits_snoc digit_val_digit_char)
  qed
qed

lemma length_str_nat_lt10: "n < 10 \<Longrightarrow> length (str_nat n) = 1"
  by (subst str_nat.simps) simp

lemma length_str_nat_ge10: "10 \<le> n \<Longrightarrow> length (str_nat n) = Suc (length (str_nat (n div 10)))"
  by (subst str_nat.simps) simp

lemma length_str_nat_bound: "n < 10 ^ k \<Longrightarrow> 0 < k \<Longrightarrow> length (str_nat n) \<le> k"
proof (induction k arbitrary: n)
  case 0
  then show ?case by simp
next
  case (Suc k)
  show ?case
  proof (cases "n < 10")
    case True
    then show ?thesis by (simp add: length_str_nat_lt10)
  next
    case False
    then have k: "0 < k" using Suc.prems by (cases k) auto
    from Suc.prems have "n div 10 < 10 ^ k" by (simp add: less_mult_imp_div_less mult.commute)
    from Suc.IH[OF this k] False show ?thesis by (simp add: length_str_nat_ge10)
  qed
qed


lemma nat_of_digits_zeros: "nat_of_digits (replicate k CHR ''0'' @ s) = nat_of_digits s"
proof -
  have z: "digit_val CHR ''0'' = 0" by (simp add: digit_val_def upt_conv_Cons)
  have "foldl (\<lambda>acc c. 10 * acc + digit_val c) 0 (replicate k CHR ''0'') = 0"
    by (induction k) (simp_all add: z)
  then show ?thesis by (simp add: nat_of_digits_def)
qed

lemma is_digit_zero [simp]: "is_digit CHR ''0''"
  by (simp add: is_digit_def)

lemma zfill_digits: "list_all is_digit s \<Longrightarrow> list_all is_digit (zfill w s)"
  by (auto simp: zfill_def list_all_iff)

lemma length_zfill: "length (zfill w s) = max w (length s)"
  by (simp add: zfill_def)

lemma nat_of_digits_zfill: "nat_of_digits (zfill w s) = nat_of_digits s"
  by (simp add: zfill_def nat_of_digits_zeros)

lemma takeWhile_digits:
  "list_all is_digit ds \<Longrightarrow> takeWhile is_digit (ds @ CHR ''.'' # fs) = ds"
  by (induction ds) auto

lemma parse_decimal_print:
  assumes "list_all is_digit ds" "ds \<noteq> []" "list_all is_digit fs"
  shows "parse_decimal (ds @ ''.'' @ fs) =
           Some (of_nat (nat_of_digits ds) + of_nat (nat_of_digits fs) / 10 ^ length fs)"
  using assms by (simp add: parse_decimal_def takeWhile_digits Let_def)

section \<open>Formatting a balance and reading it back\<close>

lemma format_f2_nonneg:
  "0 \<le> x \<Longrightarrow> format_f 2 x = str_nat (cents x div 100) @ ''.'' @ zfill 2 (str_nat (cents x mod 100))"
  by (simp add: format_f_def cents_def Let_def)

lemma frac2_shape:
  "list_all is_digit (zfill 2 (str_nat (n mod 100)))" "length (zfill 2 (str_nat (n mod 100))) = 2"
  "nat_of_digits (zfill 2 (str_nat (n mod 100))) = n mod 100"
proof -
  show "list_all is_digit (zfill 2 (str_nat (n mod 100)))"
    by (simp add: zfill_digits str_nat_digits)
  have "length (str_nat (n mod 100)) \<le> 2"
    by (rule length_str_nat_bound) simp_all
  then show "length (zfill 2 (str_nat (n mod 100))) = 2" by (simp add: length_zfill)
  show "nat_of_digits (zfill 2 (str_nat (n mod 100))) = n mod 100"
    by (simp add: nat_of_digits_zfill nat_of_digits_str_nat)
qed

lemma parse_decimal_cents:
  "parse_decimal (str_nat (n div 100) @ ''.'' @ zfill 2 (str_nat (n mod 100))) = Some (of_nat n / 100)"
proof -
  have "parse_decimal (str_nat (n div 100) @ ''.'' @ zfill 2 (str_nat (n mod 100)))
        = Some (of_nat (n div 100) + of_nat (n mod 100) / 10 ^ 2)"
    by (subst parse_decimal_print) (simp_all add: str_nat_digits frac2_shape nat_of_digits_str_nat)
  also have "(of_nat (n div 100) + of_nat (n mod 100) / 10 ^ 2 :: rat) = of_nat n / 100"
  proof -
    have "(of_nat n :: rat) = of_nat (n div 100 * 100 + n mod 100)" by simp
    also have "\<dots> = of_nat (n div 100) * 100 + of_nat (n mod 100)" by (simp only: of_nat_add of_nat_mult of_nat_numeral)
    finally show ?thesis by (simp add: field_simps)
  qed
  finally show ?thesis .
qed

lemma str_nat_hd_digit: "is_digit (hd (str_nat n))"
  using str_nat_digits[of n] str_nat_nonempty[of n] by (cases "str_nat n") auto

lemma py_float_cents:
  "py_float (str_nat (n div 100) @ ''.'' @ zfill 2 (str_nat (n mod 100))) = Inr (to_double (of_nat n / 100))"
proof -
  obtain c cs where s: "str_nat (n div 100) = c # cs" by (cases "str_nat (n div 100)") auto
  with str_nat_hd_digit[of "n div 100"] have "c \<noteq> CHR ''-''" by auto
  then show ?thesis
    using parse_decimal_cents[of n] by (simp add: py_float_def s)
qed

lemma cents_to_double:
  assumes "n < 2 ^ 52"
  shows "cents (to_double (of_nat n / 100)) = n"
proof -
  define t where "t = to_double (of_nat n / 100)"
  have t0: "0 \<le> t" unfolding t_def by (rule to_double_nonneg) simp
  have "\<bar>t - of_nat n / 100\<bar> \<le> \<bar>of_nat n / 100\<bar> / 2 ^ 53"
    unfolding t_def by (rule to_double_error)
  then have "\<bar>t * 100 - of_nat n\<bar> \<le> of_nat n / 2 ^ 53"
    by (simp add: abs_le_iff field_simps)
  moreover have "(of_nat n :: rat) / 2 ^ 53 < 1 / 2"
  proof -
    have "(of_nat n :: rat) < of_nat (2 ^ 52)" using assms by (simp only: of_nat_less_iff)
    then show ?thesis by simp
  qed
  ultimately have "\<bar>t * 100 - of_int (int n)\<bar> < 1 / 2" by simp
  then have "round_half_even (t * 100) = int n" by (rule round_half_even_near)
  with t0 show ?thesis by (simp add: cents_def t_def)
qed

lemma cents_bound:
  assumes "0 \<le> x" "x \<le> 10 ^ 12"
  shows "cents x < 2 ^ 52"
proof -
  have "of_int (round_half_even (x * 100)) \<le> x * 100 + 1 / 2"
    using round_half_even_error[of "x * 100"] by linarith
  also have "\<dots> \<le> 10 ^ 14 + 1 / 2" using assms by simp
  finally have "(of_int (round_half_even (x * 100)) :: rat) < of_int (2 ^ 52)" by simp
  then have "round_half_even (x * 100) < 2 ^ 52" by (simp only: of_int_less_iff)
  then show ?thesis using assms by (simp add: cents_def nat_less_iff)
qed

lemma float_format_roundtrip:
  assumes "0 \<le> x" "x \<le> 10 ^ 12"
  shows "\<exists>v. py_float (format_f 2 x) = Inr v \<and> format_f 2 v = format_f 2 x"
proof -
  let ?v = "to_double (of_nat (cents x) / 100)"
  have v0: "0 \<le> ?v" by (rule to_double_nonneg) simp
  have "py_float (format_f 2 x) = Inr ?v"
    by (simp only: format_f2_nonneg[OF assms(1)] py_float_cents)
  moreover have "format_f 2 ?v = format_f 2 x"
    by (simp only: format_f2_nonneg[OF assms(1)] format_f2_nonneg[OF v0]
        cents_to_double[OF cents_bound[OF assms]])
  ultimately show ?thesis by blast
qed

section \<open>The random walk of the daily balances\<close>

lemma generate_daily_balances_Inr:
  assumes "generate_daily_balances accounts days r = Inr (bals, r')
           \<or> pure_generate_daily_balances accounts days r = Inr (bals, r')"
  shows "bals = balance_rows accounts 0 (nat days) r"
    and "r' = (\<lambda>i. r (i + length accounts * nat days))"
    and "\<forall>a \<in> set accounts. \<exists>b v. getitem a ''balance'' = Inr b \<and> py_float b = Inr v"
  using assms balance_accounts_Inr[of accounts "nat days" "[]" r bals r']
  by (auto simp: generate_daily_balances_def pure_generate_daily_balances_def)

lemma getitem_balance_row [simp]:
  "getitem (balance_row a idx d opening closing) ''opening_balance'' = Inr (format_f 2 opening)"
  "getitem (balance_row a idx d opening closing) ''closing_balance'' = Inr (format_f 2 closing)"
  "getitem (balance_row a idx d opening closing) ''account_id'' = Inr (projr (getitem a ''account_id''))"
  "getitem (balance_row a idx d opening closing) ''currency'' = Inr (projr (getitem a ''currency''))"
  "getitem (balance_row a idx d opening closing) ''balance_date'' = Inr (strftime (ord2ymd (ymd2ord TODAY - int d)))"
  "getitem (balance_row a idx d opening closing) ''balance_id'' = Inr (''BAL'' @ zfill 10 (str_nat (idx + 1)))"
  by (simp_all add: balance_row_def getitem_def)

lemma uniform_of_draw_bounds:
  assumes "0 \<le> a" "a \<le> b"
  shows "0 \<le> uniform_of_draw a b k" and "uniform_of_draw a b k \<le> 2 * a + 8 * b"
proof -
  have u: "0 \<le> random_of_draw k" "random_of_draw k \<le> 1"
    by (simp_all add: random_of_draw_def)
  have d: "0 \<le> fsub b a" "fsub b a \<le> 2 * b"
    using assms to_double_nonneg[of "b - a"] to_double_le[of "b - a"] by (simp_all add: fsub_def)
  have p0: "0 \<le> fsub b a * random_of_draw k" using u d by simp
  have "fsub b a * random_of_draw k \<le> fsub b a * 1" using u d by (intro mult_left_mono) auto
  then have p1: "fsub b a * random_of_draw k \<le> 2 * b" using d by simp
  have m: "0 \<le> fmul (fsub b a) (random_of_draw k)" "fmul (fsub b a) (random_of_draw k) \<le> 4 * b"
    using p0 p1 to_double_nonneg[OF p0] to_double_le[OF p0] by (simp_all add: fmul_def)
  show "0 \<le> uniform_of_draw a b k"
    unfolding uniform_of_draw_def fadd_def using m assms by (intro to_double_nonneg) simp
  have "uniform_of_draw a b k \<le> 2 * (a + fmul (fsub b a) (random_of_draw k))"
    unfolding uniform_of_draw_def fadd_def using m assms by (intro to_double_le) simp
  with m show "uniform_of_draw a b k \<le> 2 * a + 8 * b" by simp
qed

lemma generated_balance_roundtrip:
  assumes "generated_balance b"
  shows "\<exists>v. py_float b = Inr v \<and> format_f 2 v = b"
proof -
  from assms obtain k where b: "b = format_f 2 (uniform_of_draw 0 100000 k)"
    by (auto simp: generated_balance_def)
  have "0 \<le> uniform_of_draw 0 100000 k" "uniform_of_draw 0 100000 k \<le> 10 ^ 12"
    using uniform_of_draw_bounds[of 0 100000 k] by simp_all
  from float_format_roundtrip[OF this] b show ?thesis by simp
qed

lemma account_body_balance:
  assumes "account_body customers i r = Inr (a, r') \<or> pure_account_body customers i r = Inr (a, r')"
  shows "\<exists>b. getitem a ''balance'' = Inr b \<and> generated_balance b"
  using assms
  by (auto simp: account_body_def pure_account_body_def gbind_Inr_iff uniform_Inr_iff getitem_def
      generated_balance_def uniform_of_draw_def)

lemma total_balance_days:
  assumes "has_keys [''account_id'', ''currency''] account" and "d + n \<le> 739638"
  shows "total (balance_days account d n base balances)"
  using assms(2)
proof (induction n arbitrary: d base balances)
  case 0
  then show ?case by simp
next
  case (Suc n)
  have "date_plus_days TODAY (- int d) = Inr (ord2ymd (739638 + - int d))"
    using Suc.prems by (intro date_plus_days_TODAY) auto
  moreover have "total (balance_days account (Suc d) n b bs)" for b bs
    using Suc.prems by (intro Suc.IH) simp
  ultimately show ?case
    using assms(1)
    by (auto intro!: total_gbind intro: total_lift_getitem)
qed

lemma total_balance_accounts:
  assumes "list_all valid_account accounts" and "days \<le> 739638"
  shows "total (balance_accounts accounts days balances)"
  using assms(1)
proof (induction accounts arbitrary: balances)
  case Nil
  then show ?case by simp
next
  case (Cons a rest)
  then have va: "valid_account a" and rest: "list_all valid_account rest" by simp_all
  from va obtain b where b: "getitem a ''balance'' = Inr b"
    using has_keys_getitem[of "[''account_id'', ''currency'', ''balance'']" a "''balance''"]
    by (auto simp: valid_account_def)
  with va obtain v where v: "py_float b = Inr v"
    by (cases "py_float b") (auto simp: valid_account_def)
  have k: "has_keys [''account_id'', ''currency''] a"
    using va by (simp add: valid_account_def has_keys_def)
  have "total (balance_days a 0 days v balances)"
    using assms(2) by (intro total_balance_days[OF k]) simp
  with b v Cons.IH[OF rest] show ?case
    by (auto intro!: total_gbind)
qed

lemma total_generate_daily_balances:
  assumes "list_all valid_account accounts" and "days \<le> 739638"
  shows "total (generate_daily_balances accounts days)"
  unfolding generate_daily_balances_def
  using assms by (intro total_balance_accounts) auto

lemma str_nat_0 [simp]: "str_nat 0 = ''0''"
  by (subst str_nat.simps) (simp add: digit_char_def)

lemma format_f2_zero: "format_f 2 0 = ''0.00''"
  by (simp add: format_f_def round_half_even_def zfill_def)

lemma to_double_0 [simp]: "to_double 0 = 0"
  by (simp add: to_double_def)

lemma generated_balance_zero: "generated_balance ''0.00''"
  unfolding generated_balance_def
  by (rule exI[of _ 0]) (simp add: uniform_of_draw_def random_of_draw_def fadd_def fmul_def format_f2_zero)

lemma digit_val_simps [simp]:
  "digit_val CHR ''0'' = 0" "digit_val CHR ''1'' = 1" "digit_val CHR ''2'' = 2"
  "digit_val CHR ''3'' = 3" "digit_val CHR ''4'' = 4" "digit_val CHR ''5'' = 5"
  "digit_val CHR ''6'' = 6" "digit_val CHR ''7'' = 7" "digit_val CHR ''8'' = 8"
  "digit_val CHR ''9'' = 9"
  by (simp_all add: digit_val_def upt_conv_Cons)

lemma sample_accounts_valid: "list_all valid_account sample_accounts"
  by (simp add: sample_accounts_def valid_account_def has_keys_def getitem_def py_float_def
      parse_decimal_def is_digit_def nat_of_digits_def Let_def)

section \<open>Exactly representable products and the FX loops\<close>

lemma round_half_even_of_int [simp]: "round_half_even (of_int z) = z"
  by (simp add: round_half_even_def)

lemma ilog2_less:
  assumes "0 < x" and "x < 2 powi i"
  shows "ilog2 x < i"
proof (rule ccontr)
  assume "\<not> ilog2 x < i"
  then have "(2::rat) powi i \<le> 2 powi (ilog2 x)" by (intro power_int_increasing) auto
  also have "\<dots> \<le> x" by (rule ilog2_bounds(1)[OF assms(1)])
  finally show False using assms(2) by simp
qed

lemma to_double_exact:
  assumes "x = of_int m * 2 powi i" and "\<bar>x\<bar> < 2 powi (i + 53)"
  shows "to_double x = x"
proof (cases "x = 0")
  case True
  then show ?thesis by simp
next
  case False
  define e where "e = ilog2 \<bar>x\<bar> - 52"
  have "ilog2 \<bar>x\<bar> < i + 53" using False assms(2) by (intro ilog2_less) auto
  then have ei: "e \<le> i" by (simp add: e_def)
  have "\<bar>x\<bar> / 2 powi e = of_int \<bar>m\<bar> * (2 powi i / 2 powi e)"
    by (simp add: assms(1) abs_mult)
  also have "(2::rat) powi i / 2 powi e = 2 powi (i - e)"
    by (simp add: power_int_diff)
  also have "(2::rat) powi (i - e) = of_int (2 ^ nat (i - e))"
    using ei by (simp add: power_int_def)
  finally have q: "\<bar>x\<bar> / 2 powi e = of_int (\<bar>m\<bar> * 2 ^ nat (i - e))" by simp
  have "to_double x = sgn x * of_int (round_half_even (\<bar>x\<bar> / 2 powi e)) * 2 powi e"
    using False by (simp add: to_double_def e_def Let_def)
  also have "\<dots> = sgn x * (\<bar>x\<bar> / 2 powi e) * 2 powi e"
    by (simp only: q round_half_even_of_int)
  also have "\<dots> = x" by (simp add: mult_sgn_abs)
  finally show ?thesis .
qed

lemma to_double_half_int:
  assumes "m < 2 ^ 52"
  shows "to_double (of_nat m / 2) = of_nat m / 2"
proof (rule to_double_exact[where m = "int m" and i = "-1"])
  show "rat_of_nat m / 2 = rat_of_int (int m) * 2 powi - 1" by (simp add: power_int_minus)
  have "(of_nat m :: rat) < of_nat (2 ^ 52)" using assms by (simp only: of_nat_less_iff)
  then show "\<bar>rat_of_nat m / 2\<bar> < 2 powi (- 1 + 53)" by simp
qed

lemma fmul_three_halves:
  assumes "c < 2 ^ 50"
  shows "fmul (of_nat c) (3 / 2) = of_nat (3 * c) / 2"
proof -
  have "3 * c < 2 ^ 52" using assms by simp
  moreover have "rat_of_nat c * (3 / 2) = rat_of_nat (3 * c) / 2" by simp
  ultimately show ?thesis unfolding fmul_def by (simp only: to_double_half_int)
qed

lemma floor_half_nat: "\<lfloor>(of_nat n :: rat) / 2\<rfloor> = int (n div 2)"
proof -
  have "(of_nat n :: rat) / 2 = of_int (int n) / of_int 2" by simp
  then show ?thesis by (simp only: floor_divide_of_int_eq) (simp add: zdiv_int)?
qed

lemma int_of_float_Inr_iff:
  "int_of_float x = Inr n \<longleftrightarrow> \<bar>x\<bar> < 2 ^ 1024 \<and> n = (if 0 \<le> x then \<lfloor>x\<rfloor> else \<lceil>x\<rceil>)"
  by (auto simp: int_of_float_def)

lemma fx_currencies_length:
  "fx_currencies date cs rates r = Inr (rs, r') \<Longrightarrow> length rs = length rates + length cs"
proof (induction cs arbitrary: rates r)
  case Nil
  then show ?case by simp
next
  case (Cons c cs)
  obtain cur rate where c: "c = (cur, rate)" by (cases c)
  from Cons.prems obtain rates1 r1 where
    "fx_currencies date cs rates1 r1 = Inr (rs, r')" "length rates1 = Suc (length rates)"
    unfolding c by (auto simp: gbind_Inr_iff)
  with Cons.IH show ?case by fastforce
qed


lemma length_BASE_RATES [simp]: "length BASE_RATES = 7"
  by (simp add: BASE_RATES_def)

lemma fx_days_length:
  "fx_days d n rates r = Inr (rs, r') \<Longrightarrow> length rs = length rates + n * 7"
proof (induction n arbitrary: d rates r)
  case 0
  then show ?case by simp
next
  case (Suc n)
  from Suc.prems obtain dt rates1 r1 where
    a: "fx_currencies dt BASE_RATES rates r = Inr (rates1, r1)" and
    b: "fx_days (Suc d) n rates1 r1 = Inr (rs, r')"
    by (auto simp: gbind_Inr_iff)
  from fx_currencies_length[OF a] have "length rates1 = length rates + 7" by simp
  with Suc.IH[OF b] show ?case by simp
qed


lemma total_fx_rate_body: "total (fx_rate_body date cur rate n)"
  unfolding fx_rate_body_def Let_def by (auto intro!: total_gbind total_choice)

lemma total_pure_fx_rate_body: "total (pure_fx_rate_body date cur rate n)"
  unfolding pure_fx_rate_body_def Let_def by (auto intro!: total_gbind total_choice)

lemma total_fx_currencies: "total (fx_currencies date cs rates)"
proof (induction cs arbitrary: rates)
  case Nil
  then show ?case by simp
next
  case (Cons c cs)
  obtain cur rate where c: "c = (cur, rate)" by (cases c)
  show ?case unfolding c using Cons.IH
    by (auto intro!: total_gbind total_fx_rate_body total_pure_fx_rate_body)
qed

lemma total_pure_fx_currencies: "total (pure_fx_currencies date cs rates)"
proof (induction cs arbitrary: rates)
  case Nil
  then show ?case by simp
next
  case (Cons c cs)
  obtain cur rate where c: "c = (cur, rate)" by (cases c)
  show ?case unfolding c using Cons.IH
    by (auto intro!: total_gbind total_fx_rate_body total_pure_fx_rate_body)
qed

lemma total_fx_days: "d + n \<le> 739638 \<Longrightarrow> total (fx_days d n rates)"
proof (induction n arbitrary: d rates)
  case 0
  then show ?case by simp
next
  case (Suc n)
  have "date_plus_days TODAY (- int d) = Inr (ord2ymd (739638 + - int d))"
    using Suc.prems by (intro date_plus_days_TODAY) auto
  moreover have "total (fx_days (Suc d) n rs)" for rs
    using Suc.prems by (intro Suc.IH) simp
  ultimately show ?case
    by (auto intro!: total_gbind total_fx_currencies)
qed

lemma total_pure_fx_days: "d + n \<le> 739638 \<Longrightarrow> total (pure_fx_days d n rates)"
proof (induction n arbitrary: d rates)
  case 0
  then show ?case by simp
next
  case (Suc n)
  have "date_plus_days TODAY (- int d) = Inr (ord2ymd (739638 + - int d))"
    using Suc.prems by (intro date_plus_days_TODAY) auto
  moreover have "total (pure_fx_days (Suc d) n rs)" for rs
    using Suc.prems by (intro Suc.IH) simp
  ultimately show ?case
    by (auto intro!: total_gbind total_pure_fx_currencies)
qed

section \<open>Row counts and degenerate configurations\<close>

lemma for_range_nonpos: "count \<le> 0 \<Longrightarrow> for_range count body r = Inr ([], r)"
  by (simp add: for_range_def)

lemma fmul_zero_left [simp]: "fmul 0 x = 0"
  by (simp add: fmul_def)

lemma int_of_float_zero [simp]: "int_of_float 0 = Inr 0"
  by (simp add: int_of_float_def)

lemma fmul_nonneg: "0 \<le> x \<Longrightarrow> 0 \<le> y \<Longrightarrow> 0 \<le> fmul x y"
  by (simp add: fmul_def to_double_nonneg)

lemma generate_accounts_length:
  assumes "generate_accounts customers R r = Inr (accounts, r')
           \<or> pure_generate_accounts customers R r = Inr (accounts, r')"
  shows "\<exists>count. int_of_float (fmul (of_nat (length customers)) R) = Inr count \<and>
                 length accounts = nat count"
  using assms
  by (auto simp: generate_accounts_def pure_generate_accounts_def gbind_Inr_iff dest!: for_range_Inr)

lemma total_generate_accounts:
  assumes "list_all (has_keys [''customer_id'']) customers"
    and "\<bar>fmul (of_nat (length customers)) R\<bar> < 2 ^ 1024"
  shows "total (generate_accounts customers R)" and "total (pure_generate_accounts customers R)"
proof -
  obtain count where c: "int_of_float (fmul (of_nat (length customers)) R) = Inr count"
    using assms(2) by (auto simp: int_of_float_def)
  have b: "total (for_range count (account_body customers)) \<and>
           total (for_range count (pure_account_body customers))"
  proof (cases "customers = []")
    case True
    with c have "count = 0" by simp
    then show ?thesis by (simp add: total_def for_range_nonpos)
  next
    case False
    then show ?thesis
      using assms(1) by (auto intro!: total_for_range total_account_body total_pure_account_body)
  qed
  show "total (generate_accounts customers R)"
    unfolding generate_accounts_def using b c by (auto intro!: total_gbind)
  show "total (pure_generate_accounts customers R)"
    unfolding pure_generate_accounts_def using b c by (auto intro!: total_gbind)
qed

lemma total_generate_transactions_all:
  assumes "list_all (has_keys [''account_id'', ''currency'']) accounts"
  shows "total (generate_transactions accounts tpa)" and "total (pure_generate_transactions accounts tpa)"
proof -
  show "total (generate_transactions accounts tpa)"
  proof (cases "accounts = []")
    case True
    then show ?thesis by (simp add: generate_transactions_def total_def for_range_nonpos)
  next
    case False
    then show ?thesis using assms by (rule total_generate_transactions)
  qed
  show "total (pure_generate_transactions accounts tpa)"
  proof (cases "accounts = []")
    case True
    then show ?thesis by (simp add: pure_generate_transactions_def total_def for_range_nonpos)
  next
    case False
    then show ?thesis using assms by (rule total_pure_generate_transactions)
  qed
qed

lemma total_generate_fx_rates:
  assumes "days \<le> 739638"
  shows "total (generate_fx_rates days)" and "total (pure_generate_fx_rates days)"
  using assms
  by (auto simp: generate_fx_rates_def pure_generate_fx_rates_def intro!: total_fx_days total_pure_fx_days)

text \<open>
  C3, as the code has it. Row counts of the defect script's generators, whenever they
  return: the number of accounts is the floor of the float product
  \<^verbatim>\<open>len(customers) * avg_accounts_per_customer\<close>, that is of the product rounded to a
  double, for a ratio that is not negative; it is the floor of the product itself whenever
  the product is a double (for the default ratio 1.5 this is \<open>3C div 2\<close>). The number of
  transactions is accounts times transactions per account, the number of daily balances is
  accounts times days, and the number of FX rates is days times 7, for counts that are not
  negative. Each generator does return on well-formed parents (and at most 739638 days, the
  distance from the reference date to the first day of the calendar).
\<close>

theorem row_counts:
  shows "(generate_accounts customers R r = Inr (accounts, r1) \<and> 0 \<le> R \<longrightarrow>
            int (length accounts) = \<lfloor>fmul (of_nat (length customers)) R\<rfloor>) \<and>
         (generate_accounts customers (3 / 2) r = Inr (accounts, r1) \<and> length customers < 2 ^ 50 \<longrightarrow>
            length accounts = 3 * length customers div 2) \<and>
         (generate_transactions accounts tpa r = Inr (txns, r2) \<and> 0 \<le> tpa \<longrightarrow>
            int (length txns) = int (length accounts) * tpa) \<and>
         (generate_daily_balances accounts days r = Inr (bals, r3) \<and> 0 \<le> days \<longrightarrow>
            int (length bals) = int (length accounts) * days) \<and>
         (generate_fx_rates days r = Inr (rates, r4) \<and> 0 \<le> days \<longrightarrow>
            int (length rates) = days * 7) \<and>
         (list_all (has_keys [''customer_id'']) customers \<and>
            \<bar>fmul (of_nat (length customers)) R\<bar> < 2 ^ 1024 \<longrightarrow> total (generate_accounts customers R)) \<and>
         (list_all (has_keys [''account_id'', ''currency'']) accounts \<longrightarrow>
            total (generate_transactions accounts tpa)) \<and>
         (list_all valid_account accounts \<and> days \<le> 739638 \<longrightarrow>
            total (generate_daily_balances accounts days)) \<and>
         (days \<le> 739638 \<longrightarrow> total (generate_fx_rates days)) \<and>
         (generate_accounts customers R r = Inr (accounts, r1) \<and> 0 \<le> R \<and>
            to_double (of_nat (length customers) * R) = of_nat (length customers) * R \<longrightarrow>
            int (length accounts) = \<lfloor>of_nat (length customers) * R\<rfloor>)"
proof (intro conjI impI)
  assume a: "generate_accounts customers R r = Inr (accounts, r1) \<and> 0 \<le> R"
  then obtain count where c: "int_of_float (fmul (of_nat (length customers)) R) = Inr count"
    and l: "length accounts = nat count" using generate_accounts_length by blast
  have "0 \<le> fmul (of_nat (length customers)) R" using a by (intro fmul_nonneg) auto
  with c have "count = \<lfloor>fmul (of_nat (length customers)) R\<rfloor>" "0 \<le> count"
    by (auto simp: int_of_float_Inr_iff)
  with l show "int (length accounts) = \<lfloor>fmul (of_nat (length customers)) R\<rfloor>" by simp
next
  assume a: "generate_accounts customers (3 / 2) r = Inr (accounts, r1) \<and> length customers < 2 ^ 50"
  then obtain count where c: "int_of_float (fmul (of_nat (length customers)) (3 / 2)) = Inr count"
    and l: "length accounts = nat count" using generate_accounts_length by blast
  have f: "fmul (of_nat (length customers)) (3 / 2) = of_nat (3 * length customers) / 2"
    using a by (intro fmul_three_halves) simp
  from c have "count = \<lfloor>(of_nat (3 * length customers) :: rat) / 2\<rfloor>"
    unfolding f by (auto simp: int_of_float_Inr_iff)
  then have "count = int (3 * length customers div 2)" by (simp only: floor_half_nat)
  with l show "length accounts = 3 * length customers div 2" by simp
next
  assume a: "generate_transactions accounts tpa r = Inr (txns, r2) \<and> 0 \<le> tpa"
  then have "length txns = nat (int (length accounts) * tpa)"
    by (auto simp: generate_transactions_def dest!: for_range_Inr)
  with a show "int (length txns) = int (length accounts) * tpa" by simp
next
  assume a: "generate_daily_balances accounts days r = Inr (bals, r3) \<and> 0 \<le> days"
  then have "bals = balance_rows accounts 0 (nat days) r"
    using generate_daily_balances_Inr(1) by blast
  with a show "int (length bals) = int (length accounts) * days"
    by (simp add: length_balance_rows)
next
  assume a: "generate_fx_rates days r = Inr (rates, r4) \<and> 0 \<le> days"
  then have "length rates = nat days * 7"
    using fx_days_length[of 0 "nat days" "[]" r rates r4] by (simp add: generate_fx_rates_def)
  with a show "int (length rates) = days * 7" by simp
next
  assume "list_all (has_keys [''customer_id'']) customers \<and>
          \<bar>fmul (of_nat (length customers)) R\<bar> < 2 ^ 1024"
  then show "total (generate_accounts customers R)" using total_generate_accounts(1) by blast
next
  assume "list_all (has_keys [''account_id'', ''currency'']) accounts"
  then show "total (generate_transactions accounts tpa)" by (rule total_generate_transactions_all)
next
  assume "list_all valid_account accounts \<and> days \<le> 739638"
  then show "total (generate_daily_balances accounts days)"
    using total_generate_daily_balances by blast
next
  assume "days \<le> 739638"
  then show "total (generate_fx_rates days)" by (rule total_generate_fx_rates)
next
  assume a: "generate_accounts customers R r = Inr (accounts, r1) \<and> 0 \<le> R \<and>
            to_double (of_nat (length customers) * R) = of_nat (length customers) * R"
  then obtain count where c: "int_of_float (fmul (of_nat (length customers)) R) = Inr count"
    and l: "length accounts = nat count" using generate_accounts_length by blast
  have f: "fmul (of_nat (length customers)) R = of_nat (length customers) * R"
    using a by (simp add: fmul_def)
  have "0 \<le> rat_of_nat (length customers) * R" using a by simp
  with c have "count = \<lfloor>of_nat (length customers) * R\<rfloor>" "0 \<le> count"
    unfolding f by (auto simp: int_of_float_Inr_iff)
  with l show "int (length accounts) = \<lfloor>of_nat (length customers) * R\<rfloor>" by simp
qed

lemma for_loop_invariant:
  assumes "for_loop i n body acc r = Inr (xs, r')" and "P r"
    and step: "\<And>k r x r1. P r \<Longrightarrow> body k r = Inr (x, r1) \<Longrightarrow> P r1 \<and> Q k x"
  shows "P r' \<and> (\<exists>ys. xs = acc @ ys \<and> length ys = n \<and> (\<forall>k<n. Q (i + k) (ys ! k)))"
  using assms(1,2)
proof (induction n arbitrary: i acc r)
  case 0
  then show ?case by simp
next
  case (Suc n)
  from Suc.prems(1) obtain x r1 where b: "body i r = Inr (x, r1)"
    and l: "for_loop (Suc i) n body (acc @ [x]) r1 = Inr (xs, r')"
    by (auto elim: gbind_InrE)
  from step[OF Suc.prems(2) b] have p1: "P r1" and q: "Q i x" by simp_all
  from Suc.IH[OF l p1] obtain ys where r': "P r'" and ys: "xs = (acc @ [x]) @ ys" "length ys = n"
    "\<forall>k<n. Q (Suc i + k) (ys ! k)" by blast
  have "\<forall>k<Suc n. Q (i + k) ((x # ys) ! k)"
  proof (intro allI impI)
    fix k assume "k < Suc n"
    then show "Q (i + k) ((x # ys) ! k)" using q ys(2,3) by (cases k) auto
  qed
  with r' ys show ?case by (intro conjI exI[of _ "x # ys"]) auto
qed

lemma for_range_invariant:
  assumes "for_range count body r = Inr (xs, r')" and "P r"
    and "\<And>k r x r1. P r \<Longrightarrow> body k r = Inr (x, r1) \<Longrightarrow> P r1 \<and> Q k x"
  shows "P r' \<and> length xs = nat count \<and> (\<forall>k < nat count. Q k (xs ! k))"
  using for_loop_invariant[of 0 "nat count" body "[]" r xs r' P Q] assms
  by (auto simp: for_range_def)

lemma for_range_all:
  assumes "for_range count body r = Inr (xs, r')"
    and "\<And>k r x r1. body k r = Inr (x, r1) \<Longrightarrow> Q x"
  shows "list_all Q xs"
proof -
  have "\<forall>k < nat count. Q (xs ! k)" "length xs = nat count"
    using for_range_invariant[OF assms(1), of "\<lambda>_. True" "\<lambda>_. Q"] assms(2) by auto
  then show ?thesis by (auto simp: list_all_iff in_set_conv_nth)
qed

lemma account_body_valid:
  assumes "account_body customers i r = Inr (a, r') \<or> pure_account_body customers i r = Inr (a, r')"
  shows "valid_account a"
proof -
  from account_body_balance[OF assms] obtain b where b: "getitem a ''balance'' = Inr b"
    and g: "generated_balance b" by blast
  from generated_balance_roundtrip[OF g] b have "\<not> isl (py_float (projr (getitem a ''balance'')))"
    by auto
  moreover have "has_keys [''account_id'', ''currency'', ''balance''] a"
    using assms
    by (auto simp: account_body_def pure_account_body_def gbind_Inr_iff has_keys_def)
  ultimately show ?thesis by (simp add: valid_account_def)
qed

lemma generate_accounts_valid:
  assumes "generate_accounts customers R r = Inr (accounts, r')
           \<or> pure_generate_accounts customers R r = Inr (accounts, r')"
  shows "list_all valid_account accounts"
  using assms
proof
  assume "generate_accounts customers R r = Inr (accounts, r')"
  then obtain count r1 where "for_range count (account_body customers) r1 = Inr (accounts, r')"
    by (auto simp: generate_accounts_def gbind_Inr_iff)
  then show ?thesis by (rule for_range_all) (rule account_body_valid, blast)
next
  assume "pure_generate_accounts customers R r = Inr (accounts, r')"
  then obtain count r1 where "for_range count (pure_account_body customers) r1 = Inr (accounts, r')"
    by (auto simp: pure_generate_accounts_def gbind_Inr_iff)
  then show ?thesis by (rule for_range_all) (rule account_body_valid, blast)
qed

lemma valid_account_keys: "valid_account a \<Longrightarrow> has_keys [''account_id'', ''currency''] a"
  by (simp add: valid_account_def has_keys_def)

lemma sample_customers_keys: "list_all (has_keys [''customer_id'']) sample_customers"
  by (simp add: sample_customers_def has_keys_def)

theorem row_counts_witness:
  "\<exists>accounts r1 txns r2 bals r3 rates r4.
     generate_accounts sample_customers (3 / 2) (\<lambda>n. 5 * n + 1) = Inr (accounts, r1) \<and>
     length accounts = 3 \<and>
     generate_transactions accounts 10 r1 = Inr (txns, r2) \<and> length txns = 30 \<and>
     generate_daily_balances accounts 30 r2 = Inr (bals, r3) \<and> length bals = 90 \<and>
     generate_fx_rates 90 r3 = Inr (rates, r4) \<and> length rates = 630"
proof -
  have f: "fmul (of_nat (length sample_customers)) (3 / 2) = 3"
    using fmul_three_halves[of 2] by (simp add: sample_customers_def)
  have len: "length sample_customers < 2 ^ 50" by (simp add: sample_customers_def)
  have "total (generate_accounts sample_customers (3 / 2))"
    using row_counts[of sample_customers "3 / 2"] sample_customers_keys f by simp
  then obtain accounts r1 where
    a: "generate_accounts sample_customers (3 / 2) (\<lambda>n. 5 * n + 1) = Inr (accounts, r1)"
    using totalD by blast
  with len have la: "length accounts = 3"
    using row_counts[of sample_customers "3 / 2" "\<lambda>n. 5 * n + 1" accounts r1]
    by (simp add: sample_customers_def)
  have va: "list_all valid_account accounts" using a generate_accounts_valid by blast
  then have ka: "list_all (has_keys [''account_id'', ''currency'']) accounts"
    by (auto simp: list_all_iff valid_account_keys)
  have "total (generate_transactions accounts 10)"
    using row_counts[where accounts = accounts and tpa = 10] ka by blast
  then obtain txns r2 where t: "generate_transactions accounts 10 r1 = Inr (txns, r2)"
    using totalD by blast
  have lt: "length txns = 30"
    using row_counts[where accounts = accounts and tpa = 10 and r = r1 and txns = txns and ?r2.0 = r2] t la
    by simp
  have "total (generate_daily_balances accounts 30)"
    using row_counts[where accounts = accounts and days = 30] va by simp
  then obtain bals r3 where b: "generate_daily_balances accounts 30 r2 = Inr (bals, r3)"
    using totalD by blast
  have lb: "length bals = 90"
    using row_counts[where accounts = accounts and days = 30 and r = r2 and bals = bals and ?r3.0 = r3] b la
    by simp
  have "total (generate_fx_rates 90)"
    using row_counts[where days = 90] by simp
  then obtain rates r4 where x: "generate_fx_rates 90 r3 = Inr (rates, r4)"
    using totalD by blast
  have lx: "length rates = 630"
    using row_counts[where days = 90 and r = r3 and rates = rates and ?r4.0 = r4] x by simp
  from a la t lt b lb x lx show ?thesis by blast
qed

text \<open>
  C9. A customer count that is zero or negative gives the empty customer list, and every
  downstream generator returns the empty list on an empty parent collection; none of these
  calls raises, and none consumes a draw.
\<close>

theorem degenerate_configuration:
  "(count \<le> 0 \<longrightarrow> generate_customers count r = Inr ([], r)
                   \<and> pure_generate_customers count r = Inr ([], r)) \<and>
   generate_accounts [] R r = Inr ([], r) \<and>
   pure_generate_accounts [] R r = Inr ([], r) \<and>
   generate_transactions [] tpa r = Inr ([], r) \<and>
   pure_generate_transactions [] tpa r = Inr ([], r) \<and>
   generate_daily_balances [] days r = Inr ([], r) \<and>
   pure_generate_daily_balances [] days r = Inr ([], r)"
  by (simp add: generate_customers_def pure_generate_customers_def for_range_nonpos
      generate_accounts_def pure_generate_accounts_def gbind_def lift_def
      generate_transactions_def pure_generate_transactions_def
      generate_daily_balances_def pure_generate_daily_balances_def)

theorem degenerate_configuration_witness:
  "generate_customers (- 5) (\<lambda>n. 3 * n) = Inr ([], (\<lambda>n. 3 * n)) \<and>
   pure_generate_customers (- 5) (\<lambda>n. 3 * n) = Inr ([], (\<lambda>n. 3 * n)) \<and>
   generate_accounts [] (3 / 2) (\<lambda>n. 3 * n) = Inr ([], (\<lambda>n. 3 * n)) \<and>
   generate_transactions [] 10 (\<lambda>n. 3 * n) = Inr ([], (\<lambda>n. 3 * n)) \<and>
   generate_daily_balances [] 30 (\<lambda>n. 3 * n) = Inr ([], (\<lambda>n. 3 * n))"
  using degenerate_configuration[of "- 5" "\<lambda>n. 3 * n" "3 / 2" 10 30] by simp

section \<open>A random source of constant draws\<close>

lemma keeps_constD: "keeps_const m \<Longrightarrow> m (const_source c) = Inr (x, r1) \<Longrightarrow> r1 = const_source c"
  by (auto simp: keeps_const_def)

lemma keeps_const_greturn [simp]: "keeps_const (greturn x)"
  by (simp add: keeps_const_def)

lemma keeps_const_graise [simp]: "keeps_const (graise e)"
  by (simp add: keeps_const_def)

lemma keeps_const_lift [simp]: "keeps_const (lift v)"
  by (simp add: keeps_const_def)

lemma keeps_const_gbind:
  assumes "keeps_const m" and "\<And>x. keeps_const (f x)"
  shows "keeps_const (gbind m f)"
  unfolding keeps_const_def
proof (intro allI impI)
  fix c y r2 assume "gbind m f (const_source c) = Inr (y, r2)"
  then obtain x r1 where m: "m (const_source c) = Inr (x, r1)" and f: "f x r1 = Inr (y, r2)"
    by (auto simp: gbind_Inr_iff)
  from keeps_constD[OF assms(1) m] f keeps_constD[OF assms(2)] show "r2 = const_source c" by auto
qed

lemma keeps_const_draw [simp]: "keeps_const draw"
  by (auto simp: keeps_const_def draw_def const_source_def)

lemma keeps_const_random [simp]: "keeps_const random"
  by (simp add: random_def keeps_const_gbind)

lemma keeps_const_randint [simp]: "keeps_const (randint a b)"
  by (simp add: randint_def keeps_const_gbind)

lemma keeps_const_choice [simp]: "keeps_const (choice xs)"
  by (simp add: choice_def keeps_const_gbind)

lemma keeps_const_uniform [simp]: "keeps_const (uniform a b)"
  by (simp add: uniform_def keeps_const_gbind)

lemma keeps_const_if [simp]: "keeps_const m \<Longrightarrow> keeps_const n \<Longrightarrow> keeps_const (if b then m else n)"
  by simp

lemma keeps_const_fields [simp]:
  "keeps_const (and_random_below b p)" "keeps_const (keep_if_random_above p x)"
  "keeps_const (generate_email f l b)" "keeps_const (generate_phone b)"
  "keeps_const (generate_date d n b)"
  by (simp_all add: and_random_below_def keep_if_random_above_def generate_email_def
      generate_phone_def generate_date_def keeps_const_gbind)

lemma keeps_const_customer_body [simp]: "keeps_const (customer_body i)"
  by (simp add: customer_body_def Let_def keeps_const_gbind)

lemma keeps_const_account_body [simp]: "keeps_const (account_body customers i)"
  by (simp add: account_body_def keeps_const_gbind)

lemma keeps_const_transaction_body [simp]: "keeps_const (transaction_body accounts i)"
  by (simp add: transaction_body_def keeps_const_gbind)

lemma random_const: "random (const_source c) = Inr (random_of_draw c, const_source c)"
  by (simp add: random_Inr_iff const_source_def)

lemma choice_const: "xs \<noteq> [] \<Longrightarrow> choice xs (const_source c) = Inr (xs ! (c mod length xs), const_source c)"
  by (simp add: choice_Inr_iff const_source_def)

lemma randint_const:
  "a \<le> b \<Longrightarrow> randint a b (const_source c) = Inr (a + int c mod (b - a + 1), const_source c)"
  by (simp add: randint_Inr_iff const_source_def)

lemma customer_body_id:
  assumes "customer_body i r = Inr (x, r1)"
  shows "getitem x ''customer_id''
           = Inr (if 1 / 100 < random_of_draw (r 3) then ''CUST'' @ zfill 6 (str_nat (i + 1)) else [])"
  using assms
  by (auto simp: customer_body_def Let_def gbind_Inr_iff keep_if_random_above_def random_Inr_iff
      choice_Inr_iff getitem_def numeral_3_eq_3)

lemma account_body_ids:
  assumes "account_body customers i r = Inr (a, r1)"
  shows "getitem a ''account_id''
           = Inr (if 1 / 100 < random_of_draw (r 2) then ''ACC'' @ zfill 8 (str_nat (i + 1)) else [])"
    and "random_of_draw (r 0) < 5 / 100 \<Longrightarrow>
           getitem a ''customer_id'' = Inr (''CUST'' @ str_int (900000 + int (r 1) mod 100000))"
    and "\<not> random_of_draw (r 0) < 5 / 100 \<Longrightarrow>
           customers \<noteq> [] \<and>
           getitem a ''customer_id'' = getitem (customers ! (r 1 mod length customers)) ''customer_id''"
  using assms
  by (auto simp: account_body_def gbind_Inr_iff random_Inr_iff randint_Inr_iff choice_Inr_iff
      getitem_def numeral_2_eq_2 split: option.splits if_splits)

section \<open>Suppressed account identifiers reach the child records\<close>

lemma random_of_draw_0 [simp]: "random_of_draw 0 = 0"
  by (simp add: random_of_draw_def)

lemma customer_body_keys:
  assumes "customer_body i r = Inr (x, r1)"
  shows "has_keys [''customer_id''] x"
  using assms by (auto simp: customer_body_def Let_def gbind_Inr_iff has_keys_def)

lemma generate_customers_keys:
  assumes "generate_customers count r = Inr (customers, r')"
  shows "list_all (has_keys [''customer_id'']) customers"
  using assms unfolding generate_customers_def
  by (rule for_range_all) (rule customer_body_keys)

lemma total_generate_customers: "total (generate_customers count)"
  unfolding generate_customers_def by (intro total_for_range total_customer_body)

lemma transaction_currency_inheritance_aux:
  assumes "generate_transactions accounts tpa r = Inr (txns, r')" and "t \<in> set txns"
  shows "\<exists>a \<in> set accounts. \<exists>aid. getitem a ''account_id'' = Inr aid \<and> getitem t ''account_id'' = Inr aid"
proof -
  from for_range_elem[OF assms(1)[unfolded generate_transactions_def] assms(2)]
  obtain k r1 r2 where "transaction_body accounts k r1 = Inr (t, r2)" by blast
  from transaction_body_inherits[OF this] show ?thesis by blast
qed

lemma generate_accounts_const:
  assumes "generate_accounts customers R (const_source c) = Inr (accounts, r')"
    and "\<not> 1 / 100 < random_of_draw c"
  shows "r' = const_source c \<and> list_all (\<lambda>a. getitem a ''account_id'' = Inr []) accounts"
proof -
  from assms obtain count where
    f: "for_range count (account_body customers) (const_source c) = Inr (accounts, r')"
    by (auto simp: generate_accounts_def gbind_Inr_iff)
  have step: "r1 = const_source c \<and> getitem x ''account_id'' = Inr []"
    if "r = const_source c" "account_body customers k r = Inr (x, r1)" for k r x r1
    using that assms(2) keeps_constD[OF keeps_const_account_body, of customers k c x r1]
      account_body_ids(1)[of customers k r x r1]
    by (auto simp: const_source_def)
  from for_range_invariant[OF f, of "\<lambda>r. r = const_source c"
      "\<lambda>k a. getitem a ''account_id'' = Inr []"] step
  show ?thesis by (auto simp: list_all_iff in_set_conv_nth)
qed

text \<open>
  C10. On the random source whose draws are all 0, the defect script's pipeline with the
  counts of \<^verbatim>\<open>main\<close> returns 1500 accounts, 15000 transactions and 45000 daily balances,
  and every transaction and every daily balance has the empty string as \<^verbatim>\<open>account_id\<close>:
  the suppressed identifier of an account is copied into its child records.
\<close>

theorem suppressed_account_id_propagates:
  "\<exists>customers accounts txns bals r1 r2 r3 r4.
     generate_customers 1000 (const_source 0) = Inr (customers, r1) \<and>
     generate_accounts customers (3 / 2) r1 = Inr (accounts, r2) \<and>
     generate_transactions accounts 10 r2 = Inr (txns, r3) \<and>
     generate_daily_balances accounts 30 r3 = Inr (bals, r4) \<and>
     length accounts = 1500 \<and> length txns = 15000 \<and> length bals = 45000 \<and>
     list_all (\<lambda>t. getitem t ''account_id'' = Inr []) txns \<and>
     list_all (\<lambda>b. getitem b ''account_id'' = Inr []) bals"
proof -
  obtain customers r1 where
    c: "generate_customers 1000 (const_source 0) = Inr (customers, r1)"
    using totalD[OF total_generate_customers] by blast
  have r1: "r1 = const_source 0"
    using for_range_invariant[OF c[unfolded generate_customers_def], of "\<lambda>r. r = const_source 0" "\<lambda>_ _. True"]
      keeps_constD[OF keeps_const_customer_body] by blast
  have lc: "length customers = 1000"
    using for_range_Inr[OF c[unfolded generate_customers_def]] by simp
  have kc: "list_all (has_keys [''customer_id'']) customers" by (rule generate_customers_keys[OF c])
  have f: "fmul (of_nat (length customers)) (3 / 2) = 1500"
    using fmul_three_halves[of 1000] lc by simp
  have "total (generate_accounts customers (3 / 2))"
    by (rule total_generate_accounts(1)[OF kc]) (simp add: f)
  then obtain accounts r2 where a: "generate_accounts customers (3 / 2) r1 = Inr (accounts, r2)"
    using totalD by blast
  have la: "length accounts = 1500"
    using generate_accounts_length[OF disjI1[OF a]] by (auto simp: f int_of_float_Inr_iff)
  have ida: "list_all (\<lambda>a. getitem a ''account_id'' = Inr []) accounts"
    using generate_accounts_const[OF a[unfolded r1]] by simp
  have va: "list_all valid_account accounts" using a generate_accounts_valid by blast
  then have ka: "list_all (has_keys [''account_id'', ''currency'']) accounts"
    by (auto simp: list_all_iff valid_account_keys)
  obtain txns r3 where t: "generate_transactions accounts 10 r2 = Inr (txns, r3)"
    using totalD[OF total_generate_transactions_all(1)[OF ka]] by blast
  have lt: "length txns = 15000"
    using for_range_Inr[OF t[unfolded generate_transactions_def]] la by simp
  have idt: "list_all (\<lambda>t. getitem t ''account_id'' = Inr []) txns"
    unfolding list_all_iff
  proof
    fix x assume "x \<in> set txns"
    from transaction_currency_inheritance_aux[OF t this] ida
    show "getitem x ''account_id'' = Inr []" by (auto simp: list_all_iff)
  qed
  have "total (generate_daily_balances accounts 30)"
    by (rule total_generate_daily_balances[OF va]) simp
  then obtain bals r4 where b: "generate_daily_balances accounts 30 r3 = Inr (bals, r4)"
    using totalD by blast
  have rows: "bals = balance_rows accounts 0 (nat 30) r3"
    by (rule generate_daily_balances_Inr(1)[OF disjI1[OF b]])
  have lb: "length bals = 45000" by (simp add: rows length_balance_rows la)
  have idb: "list_all (\<lambda>b. getitem b ''account_id'' = Inr []) bals"
    unfolding list_all_iff
  proof
    fix x assume "x \<in> set bals"
    then obtain n where n: "n < 45000" "x = bals ! n" using lb by (auto simp: in_set_conv_nth)
    define j where "j = n div 30"
    define k where "k = n mod 30"
    have jk: "j < length accounts" "k < nat 30" "n = j * nat 30 + k"
      using n(1) la by (auto simp: j_def k_def)
    have "x = balance_row (accounts ! j) (0 + j * nat 30 + k) k
                (walk (account_base (accounts ! j)) (\<lambda>i. r3 (i + j * nat 30)) k)
                (walk (account_base (accounts ! j)) (\<lambda>i. r3 (i + j * nat 30)) (Suc k))"
      unfolding n(2) rows jk(3) by (rule balance_rows_nth[OF jk(1,2)])
    moreover have "getitem (accounts ! j) ''account_id'' = Inr []"
      using ida jk(1) by (auto simp: list_all_iff)
    ultimately show "getitem x ''account_id'' = Inr []" by simp
  qed
  from c a t b la lt lb idt idb show ?thesis by blast
qed

section \<open>Orphan references\<close>

lemma str_nat_1 [simp]: "str_nat 1 = ''1''" "str_nat (Suc 0) = ''1''"
  by (subst str_nat.simps, simp add: digit_char_def)+

lemma str_nat_numeral [simp]:
  "str_nat (numeral w) =
     (if (numeral w :: nat) < 10 then [digit_char (numeral w)]
      else str_nat (numeral w div 10) @ [digit_char (numeral w mod 10)])"
  by (rule str_nat.simps)

lemma digit_char_simps [simp]:
  "digit_char 0 = CHR ''0''" "digit_char 1 = CHR ''1''" "digit_char 2 = CHR ''2''"
  "digit_char 3 = CHR ''3''" "digit_char 4 = CHR ''4''" "digit_char 5 = CHR ''5''"
  "digit_char 6 = CHR ''6''" "digit_char 7 = CHR ''7''" "digit_char 8 = CHR ''8''"
  "digit_char 9 = CHR ''9''"
  by (simp_all add: digit_char_def)

lemma str_nat_900000: "str_nat 900000 = ''900000''"
  by simp

lemma collision_draw_facts:
  "1 / 100 < random_of_draw collision_draw" "random_of_draw collision_draw < 5 / 100"
  "str_nat (nat (900000 + int collision_draw mod 100000)) = ''900000''"
  by (simp_all add: collision_draw_def random_of_draw_def)

lemma generate_customers_ids:
  assumes "generate_customers count r = Inr (customers, r')" and "k < length customers"
  shows "getitem (customers ! k) ''customer_id'' = Inr []
         \<or> getitem (customers ! k) ''customer_id'' = Inr (''CUST'' @ zfill 6 (str_nat (k + 1)))"
proof -
  have step: "True \<and> (getitem x ''customer_id'' = Inr []
         \<or> getitem x ''customer_id'' = Inr (''CUST'' @ zfill 6 (str_nat (i + 1))))"
    if "customer_body i r0 = Inr (x, r1)" for i r0 x r1
    using customer_body_id[OF that] by auto
  from for_range_invariant[OF assms(1)[unfolded generate_customers_def], of "\<lambda>_. True"
      "\<lambda>i x. getitem x ''customer_id'' = Inr []
         \<or> getitem x ''customer_id'' = Inr (''CUST'' @ zfill 6 (str_nat (i + 1)))"] step assms(2)
  show ?thesis by auto
qed

lemma generate_customers_const:
  assumes "generate_customers count (const_source c) = Inr (customers, r')"
    and "1 / 100 < random_of_draw c" and "k < length customers"
  shows "r' = const_source c"
    and "getitem (customers ! k) ''customer_id'' = Inr (''CUST'' @ zfill 6 (str_nat (k + 1)))"
proof -
  have step: "r1 = const_source c \<and>
      getitem x ''customer_id'' = Inr (''CUST'' @ zfill 6 (str_nat (i + 1)))"
    if "r0 = const_source c" "customer_body i r0 = Inr (x, r1)" for i r0 x r1
    using that assms(2) keeps_constD[OF keeps_const_customer_body, of i c x r1]
      customer_body_id[of i r0 x r1]
    by (auto simp: const_source_def)
  from for_range_invariant[OF assms(1)[unfolded generate_customers_def], of "\<lambda>r. r = const_source c"
      "\<lambda>i x. getitem x ''customer_id'' = Inr (''CUST'' @ zfill 6 (str_nat (i + 1)))"] step assms(3)
  show "r' = const_source c"
    and "getitem (customers ! k) ''customer_id'' = Inr (''CUST'' @ zfill 6 (str_nat (k + 1)))"
    by auto
qed

theorem orphan_collision_counterexample:
  "\<exists>customers accounts r1 r2.
     generate_customers 900000 (const_source collision_draw) = Inr (customers, r1) \<and>
     generate_accounts customers (3 / 2) r1 = Inr (accounts, r2) \<and>
     random_of_draw (r1 0) < 5 / 100 \<and>
     getitem (accounts ! 0) ''customer_id'' = Inr ''CUST900000'' \<and>
     getitem (customers ! 899999) ''customer_id'' = Inr ''CUST900000''"
proof -
  obtain customers r1 where
    c: "generate_customers 900000 (const_source collision_draw) = Inr (customers, r1)"
    using totalD[OF total_generate_customers] by blast
  have lc: "length customers = 900000"
    using for_range_Inr[OF c[unfolded generate_customers_def]] by simp
  then have k: "899999 < length customers" by simp
  note cc = generate_customers_const[OF c collision_draw_facts(1) k]
  have id: "getitem (customers ! 899999) ''customer_id'' = Inr ''CUST900000''"
    using cc(2) by (simp add: zfill_def)
  have kc: "list_all (has_keys [''customer_id'']) customers" by (rule generate_customers_keys[OF c])
  have f: "fmul (of_nat (length customers)) (3 / 2) = 1350000"
    using fmul_three_halves[of 900000] lc by simp
  have "total (generate_accounts customers (3 / 2))"
    by (rule total_generate_accounts(1)[OF kc]) (simp add: f)
  then obtain accounts r2 where a: "generate_accounts customers (3 / 2) r1 = Inr (accounts, r2)"
    using totalD by blast
  from a obtain count where cnt: "int_of_float (fmul (of_nat (length customers)) (3 / 2)) = Inr count"
    and fr: "for_range count (account_body customers) r1 = Inr (accounts, r2)"
    by (auto simp: generate_accounts_def gbind_Inr_iff)
  have count: "count = 1350000" using cnt by (auto simp: f int_of_float_Inr_iff)
  have step: "q1 = const_source collision_draw \<and>
      getitem x ''customer_id'' = Inr ''CUST900000''"
    if "q0 = const_source collision_draw" "account_body customers i q0 = Inr (x, q1)" for i q0 x q1
    using that keeps_constD[OF keeps_const_account_body, of customers i collision_draw x q1]
      account_body_ids(2)[of customers i q0 x q1] collision_draw_facts
    by (auto simp: const_source_def str_int_def)
  from for_range_invariant[OF fr, of "\<lambda>r. r = const_source collision_draw"
      "\<lambda>i x. getitem x ''customer_id'' = Inr ''CUST900000''"] step cc(1) count
  have "getitem (accounts ! 0) ''customer_id'' = Inr ''CUST900000''" by auto
  moreover have "random_of_draw (r1 0) < 5 / 100"
    using cc(1) collision_draw_facts(2) by (simp add: const_source_def)
  ultimately show ?thesis using c a id by blast
qed

lemma padded_id_distinct:
  assumes "m < 900000" and "900000 \<le> n"
  shows "zfill 6 (str_nat m) \<noteq> str_int n"
proof
  assume "zfill 6 (str_nat m) = str_int n"
  then have "nat_of_digits (zfill 6 (str_nat m)) = nat_of_digits (str_nat (nat n))"
    using assms(2) by (simp add: str_int_def)
  then have "m = nat n" by (simp add: nat_of_digits_zfill nat_of_digits_str_nat)
  with assms show False by simp
qed

lemma orphan_branch_unmatched:
  assumes "generate_customers count r0 = Inr (customers, r1)" and "count < 900000"
    and "account_body customers i r = Inr (a, r')" and "random_of_draw (r 0) < 5 / 100"
  shows "orphan_unmatched customers a"
proof -
  let ?n = "900000 + int (r 1) mod 100000"
  have n: "900000 \<le> ?n" "?n \<le> 999999"
    by simp_all
  have id: "getitem a ''customer_id'' = Inr (''CUST'' @ str_int ?n)"
    by (rule account_body_ids(2)[OF assms(3,4)])
  have len: "length customers = nat count"
    using for_range_Inr[OF assms(1)[unfolded generate_customers_def]] by simp
  have "getitem c ''customer_id'' \<noteq> Inr (''CUST'' @ str_int ?n)" if "c \<in> set customers" for c
  proof -
    from that obtain k where k: "k < length customers" "c = customers ! k"
      by (auto simp: in_set_conv_nth)
    have "k + 1 < 900000" using k(1) len assms(2) by simp
    from padded_id_distinct[OF this n(1)] generate_customers_ids[OF assms(1) k(1)] k(2)
    show ?thesis by auto
  qed
  with n id show ?thesis unfolding orphan_unmatched_def list_all_iff by blast
qed

text \<open>
  C4, as amended. For a customer collection that \<^verbatim>\<open>generate_customers\<close> returned for
  a count below 900000, an account built in the orphan branch (the first draw of the
  iteration is below 0.05) has a customer reference \<open>CUST\<close> followed by a number between
  900000 and 999999 that is the \<^verbatim>\<open>customer_id\<close> of no customer; and every account that
  \<^verbatim>\<open>generate_accounts\<close> returns either has the reference of some customer or is such an
  orphan.
\<close>

theorem orphan_ids_unmatched:
  assumes "generate_customers count r0 = Inr (customers, r1)" and "count < 900000"
  shows "(account_body customers i r = Inr (a, r') \<and> random_of_draw (r 0) < 5 / 100 \<longrightarrow>
            orphan_unmatched customers a) \<and>
         (generate_accounts customers R r = Inr (accounts, r') \<and> a \<in> set accounts \<longrightarrow>
            resolved customers a \<or> orphan_unmatched customers a)"
proof (intro conjI impI)
  assume "account_body customers i r = Inr (a, r') \<and> random_of_draw (r 0) < 5 / 100"
  then show "orphan_unmatched customers a"
    using orphan_branch_unmatched[OF assms] by blast
next
  assume g: "generate_accounts customers R r = Inr (accounts, r') \<and> a \<in> set accounts"
  then obtain cnt q where "for_range cnt (account_body customers) q = Inr (accounts, r')"
    by (auto simp: generate_accounts_def gbind_Inr_iff)
  from for_range_elem[OF this] g obtain k q1 q2 where
    b: "account_body customers k q1 = Inr (a, q2)" by blast
  show "resolved customers a \<or> orphan_unmatched customers a"
  proof (cases "random_of_draw (q1 0) < 5 / 100")
    case True
    then show ?thesis using orphan_branch_unmatched[OF assms b] by simp
  next
    case False
    from account_body_ids(3)[OF b False]
    have "customers \<noteq> []" and "getitem a ''customer_id''
        = getitem (customers ! (q1 1 mod length customers)) ''customer_id''" by simp_all
    then have "resolved customers a"
      unfolding resolved_def list_ex_iff
      by (intro bexI[of _ "customers ! (q1 1 mod length customers)"]) auto
    then show ?thesis by simp
  qed
qed

theorem orphan_ids_unmatched_witness:
  "\<exists>customers r1 a r'.
     generate_customers 1000 (const_source collision_draw) = Inr (customers, r1) \<and>
     account_body customers 0 (const_source collision_draw) = Inr (a, r') \<and>
     random_of_draw (const_source collision_draw 0) < 5 / 100 \<and>
     orphan_unmatched customers a"
proof -
  obtain customers r1 where
    c: "generate_customers 1000 (const_source collision_draw) = Inr (customers, r1)"
    using totalD[OF total_generate_customers] by blast
  have lc: "length customers = 1000"
    using for_range_Inr[OF c[unfolded generate_customers_def]] by simp
  have kc: "list_all (has_keys [''customer_id'']) customers" by (rule generate_customers_keys[OF c])
  have ne: "customers \<noteq> []" using lc by auto
  obtain a r' where b: "account_body customers 0 (const_source collision_draw) = Inr (a, r')"
    using totalD[OF total_account_body[OF ne kc]] by blast
  have o: "random_of_draw (const_source collision_draw 0) < 5 / 100"
    using collision_draw_facts(2) by (simp add: const_source_def)
  from orphan_ids_unmatched[OF c, of 0 "const_source collision_draw" a r'] b o
  have "orphan_unmatched customers a" by simp
  with c b o show ?thesis by blast
qed

section \<open>Serialization is a function of the records\<close>

lemma dict_to_list_fits: "fits fieldnames rowdict \<Longrightarrow> dict_to_list fieldnames rowdict = Inr (row_values fieldnames rowdict)"
  by (auto simp: dict_to_list_def fits_def row_values_def list_all_iff)

lemma writerows_fits:
  "list_all (fits fieldnames) data \<Longrightarrow>
     writerows fieldnames data out = (None, out @ concat (map csv_row (map (row_values fieldnames) data)))"
  by (induction data arbitrary: out) (simp_all add: dict_to_list_fits)

lemma write_csv_in_path:
  "snd (write_csv_in dir filename data fieldnames fs) (dir @ ''/'' @ filename)
     = Some (snd (writerows fieldnames data (csv_row fieldnames)))"
  by (simp add: write_csv_in_def Let_def)

lemma write_csv_in_other:
  "p \<noteq> dir @ ''/'' @ filename \<Longrightarrow> snd (write_csv_in dir filename data fieldnames fs) p = fs p"
  by (simp add: write_csv_in_def Let_def)

lemma write_csv_in_twice:
  "write_csv_in dir filename data fieldnames (snd (write_csv_in dir filename data fieldnames fs))
     = write_csv_in dir filename data fieldnames fs"
  by (simp add: write_csv_in_def Let_def)

text \<open>
  C8. What \<^verbatim>\<open>write_csv\<close> leaves in the file is a function of the records and the field
  names alone: it is the same from any two earlier states of the file system, writing a
  second time changes nothing, and for records whose keys all occur in the field names it
  is the header row followed by one row per record, in the order of the list, each with its
  values in the order of the field names. No random draw is involved: the function has no
  access to the random source. This holds for both scripts.
\<close>

theorem write_csv_deterministic:
  "snd (write_csv filename data fieldnames fs1) (OUTPUT_DIR @ ''/'' @ filename)
     = snd (write_csv filename data fieldnames fs2) (OUTPUT_DIR @ ''/'' @ filename) \<and>
   snd (pure_write_csv filename data fieldnames fs1) (pure_OUTPUT_DIR @ ''/'' @ filename)
     = snd (pure_write_csv filename data fieldnames fs2) (pure_OUTPUT_DIR @ ''/'' @ filename) \<and>
   fst (write_csv filename data fieldnames fs1) = fst (write_csv filename data fieldnames fs2) \<and>
   write_csv filename data fieldnames (snd (write_csv filename data fieldnames fs1))
     = write_csv filename data fieldnames fs1 \<and>
   pure_write_csv filename data fieldnames (snd (pure_write_csv filename data fieldnames fs1))
     = pure_write_csv filename data fieldnames fs1 \<and>
   (list_all (fits fieldnames) data \<longrightarrow>
      write_csv filename data fieldnames fs1
        = (None, fs1(OUTPUT_DIR @ ''/'' @ filename := Some (csv_text fieldnames data))) \<and>
      pure_write_csv filename data fieldnames fs1
        = (None, fs1(pure_OUTPUT_DIR @ ''/'' @ filename := Some (csv_text fieldnames data))))"
  by (simp add: write_csv_def pure_write_csv_def write_csv_in_path write_csv_in_twice)
     (simp add: write_csv_in_def Let_def writerows_fits csv_text_def)

theorem write_csv_deterministic_witness:
  "write_csv ''t.csv'' [[(''a'', ''1''), (''b'', ''x,y'')], [(''b'', ''2'')]] [''b'', ''a'']
      (\<lambda>p. None)
     = (None, (\<lambda>p. None)(''sample_data/t.csv'' :=
          Some ([CHR ''b'', CHR '','', CHR ''a'', CR, LF,
                 CHR 0x22, CHR ''x'', CHR '','', CHR ''y'', CHR 0x22, CHR '','', CHR ''1'', CR, LF,
                 CHR ''2'', CHR '','', CR, LF])))"
  using write_csv_deterministic[of "''t.csv''" "[[(''a'', ''1''), (''b'', ''x,y'')], [(''b'', ''2'')]]"
      "[''b'', ''a'']" "\<lambda>p. None" "\<lambda>p. None"]
  by (simp add: fits_def csv_text_def row_values_def csv_row_def csv_field_def needs_quote_def
      OUTPUT_DIR_def CR_def LF_def)

section \<open>Random sources that start with given draws\<close>

lemma prepend_Nil [simp]: "prepend [] r = r"
  by (simp add: prepend_def)

lemma draw_prepend [simp]: "draw (prepend (x # xs) r) = Inr (x, prepend xs r)"
  by (auto simp: draw_def prepend_def fun_eq_iff)

lemma random_prepend [simp]: "random (prepend (x # xs) r) = Inr (random_of_draw x, prepend xs r)"
  by (simp add: random_def greturn_def gbind_def)

lemma choice_prepend [simp]:
  "ys \<noteq> [] \<Longrightarrow> choice ys (prepend (x # xs) r) = Inr (ys ! (x mod length ys), prepend xs r)"
  by (simp add: choice_def greturn_def gbind_def)

lemma randint_prepend [simp]:
  "a \<le> b \<Longrightarrow> randint a b (prepend (x # xs) r) = Inr (a + int x mod (b - a + 1), prepend xs r)"
  by (simp add: randint_def greturn_def gbind_def)

lemma uniform_prepend [simp]:
  "uniform a b (prepend (x # xs) r) = Inr (uniform_of_draw a b x, prepend xs r)"
  by (simp add: uniform_def greturn_def uniform_of_draw_def gbind_def)

lemma date_plus_days_draw:
  assumes "0 \<le> d" "1 \<le> ymd2ord dt - d" "ymd2ord dt + d \<le> MAXORDINAL"
  shows "date_plus_days dt (- d + int x mod (d - - d + 1))
           = Inr (ord2ymd (ymd2ord dt + (- d + int x mod (d - - d + 1))))"
proof -
  have p: "0 < d - - d + 1" using assms(1) by simp
  have "0 \<le> int x mod (d - - d + 1)" "int x mod (d - - d + 1) < d - - d + 1"
    using pos_mod_sign[OF p] pos_mod_bound[OF p] by blast+
  with assms show ?thesis unfolding date_plus_days_def Let_def by auto
qed

lemma pure_generate_date_prepend:
  assumes "0 \<le> d" "1 \<le> ymd2ord dt - d" "ymd2ord dt + d \<le> MAXORDINAL"
  shows "pure_generate_date dt d (prepend (x # xs) r) = Inr (clean_date dt d x, prepend xs r)"
  using assms date_plus_days_draw[OF assms, of x]
  by (simp add: pure_generate_date_def clean_date_def lift_def greturn_def gbind_def)

lemma choice_Nil [simp]: "choice [] r = Inl IndexError"
  by (simp add: choice_def graise_def)

lemma keep_state_simps [simp]:
  "keep_state s (Inl e) = Inl e" "keep_state s (Inr (x, r1)) = Inr (x, s)"
  by (simp_all add: keep_state_def)

lemma prepend_take: "r = prepend (map r [0..<a]) (shift a r)"
  by (auto simp: prepend_def shift_def fun_eq_iff)

lemma field_generators_equal:
  "generate_email f l False = pure_generate_email f l"
  "generate_phone False = pure_generate_phone"
  "generate_date b d False = pure_generate_date b d"
  by (intro ext, simp add: generate_email_def pure_generate_email_def generate_phone_def
      pure_generate_phone_def generate_date_def pure_generate_date_def and_random_below_def
      gbind_def greturn_def)+

lemma counting_source_prefix:
  "counting_source = prepend [0, 1, 2, 3, 4, 5, 6, 7, 8, 9, 10, 11, 12, 13, 14] (shift 15 counting_source)"
  using prepend_take[of counting_source 15]
  by (simp add: upt_rec[of _ "numeral _"] upt_rec[of _ "Suc _"] eval_nat_numeral counting_source_def)

lemma for_range_one: "for_range 1 body r = gbind (body 0) (\<lambda>x. greturn [x]) r"
  by (simp add: for_range_def)

lemma clean_phone_examples:
  "clean_phone 7 8 9 = ''+1-207-208-1009''" "clean_phone 3 4 5 = ''+1-203-204-1005''"
  by (simp_all add: clean_phone_def str_int_def)

lemma total_pure_generate_customers: "total (pure_generate_customers count)"
  unfolding pure_generate_customers_def by (intro total_for_range total_pure_customer_body)

section \<open>The calendar and the format of dates\<close>

lemma ordinal_decomposition:
  fixes n :: int
  assumes "0 \<le> n"
  defines "a \<equiv> n div 146097" and "na \<equiv> n mod 146097"
  defines "b \<equiv> na div 36524" and "nb \<equiv> na mod 36524"
  defines "c \<equiv> nb div 1461" and "nc \<equiv> nb mod 1461"
  defines "e \<equiv> nc div 365" and "f \<equiv> nc mod 365"
  shows "n = 146097 * a + 36524 * b + 1461 * c + 365 * e + f"
    and "0 \<le> a" "0 \<le> b" "b \<le> 4" "0 \<le> c" "c \<le> 24" "0 \<le> e" "e \<le> 4" "0 \<le> f" "f \<le> 364"
    and "b = 4 \<Longrightarrow> c = 0 \<and> e = 0 \<and> f = 0"
    and "e = 4 \<Longrightarrow> f = 0 \<and> c \<le> 23"
proof -
  have na: "0 \<le> na" "na < 146097" by (simp_all add: na_def)
  have nb: "0 \<le> nb" "nb < 36524" by (simp_all add: nb_def)
  have nc: "0 \<le> nc" "nc < 1461" by (simp_all add: nc_def)
  have f: "0 \<le> f" "f < 365" by (simp_all add: f_def)
  have 1: "n = 146097 * a + na" by (simp add: a_def na_def)
  have 2: "na = 36524 * b + nb" by (simp add: b_def nb_def)
  have 3: "nb = 1461 * c + nc" by (simp add: c_def nc_def)
  have 4: "nc = 365 * e + f" by (simp add: e_def f_def)
  show "n = 146097 * a + 36524 * b + 1461 * c + 365 * e + f" using 1 2 3 4 by simp
  show "0 \<le> a" using assms(1) by (simp add: a_def pos_imp_zdiv_nonneg_iff)
  show b0: "0 \<le> b" using na by (simp add: b_def pos_imp_zdiv_nonneg_iff)
  show b4: "b \<le> 4" using na 2 nb by linarith
  show c0: "0 \<le> c" using nb by (simp add: c_def pos_imp_zdiv_nonneg_iff)
  show "c \<le> 24" using nb 3 nc by linarith
  show e0: "0 \<le> e" using nc by (simp add: e_def pos_imp_zdiv_nonneg_iff)
  show "e \<le> 4" using nc 4 f by linarith
  show "0 \<le> f" "f \<le> 364" using f by simp_all
  show "b = 4 \<Longrightarrow> c = 0 \<and> e = 0 \<and> f = 0" using na 2 nb 3 nc 4 f c0 e0 by linarith
  show "e = 4 \<Longrightarrow> f = 0 \<and> c \<le> 23" using nb 3 nc 4 f by linarith
qed

lemma month_of_day:
  fixes nd month preceding m d :: int and leap :: bool
  assumes "0 \<le> nd" "nd \<le> 364"
    and month: "month = (nd + 50) div 32"
    and preceding: "preceding = DAYS_BEFORE_MONTH ! nat month + (if 2 < month \<and> leap then 1 else 0)"
    and m: "m = (if nd < preceding then month - 1 else month)"
    and d: "d = (if nd < preceding
                 then nd - (preceding - (DAYS_IN_MONTH ! nat (month - 1)
                                       + (if month - 1 = 2 \<and> leap then 1 else 0))) + 1
                 else nd - preceding + 1)"
  shows "1 \<le> m \<and> m \<le> 12 \<and> 1 \<le> d
         \<and> d \<le> (if m = 2 \<and> leap then 29 else DAYS_IN_MONTH ! nat m)
         \<and> DAYS_BEFORE_MONTH ! nat m + (if 2 < m \<and> leap then 1 else 0) + d = nd + 1"
proof -
  have "1 \<le> month" "month \<le> 12" using assms(1,2) unfolding month by presburger+
  then have "month \<in> {1, 2, 3, 4, 5, 6, 7, 8, 9, 10, 11, 12}" by simp presburger
  moreover have "32 * month - 50 \<le> nd" "nd \<le> 32 * month - 19"
    unfolding month by presburger+
  ultimately show ?thesis
    using assms(1,2) unfolding m d preceding DAYS_BEFORE_MONTH_def DAYS_IN_MONTH_def
    by (elim insertE emptyE; simp)
qed

lemma days_before_year_decomposition:
  fixes a b c e :: int
  assumes "0 \<le> b" "b \<le> 3" "0 \<le> c" "c \<le> 24" "0 \<le> e" "e \<le> 3"
  shows "days_before_year (a * 400 + 1 + b * 100 + c * 4 + e)
         = 146097 * a + 36524 * b + 1461 * c + 365 * e"
proof -
  define z where "z = a * 400 + b * 100 + c * 4 + e"
  have 4: "z div 4 = 100 * a + 25 * b + c"
    by (rule int_div_pos_eq[where r = e]) (use assms in \<open>simp_all add: z_def\<close>)
  have 100: "z div 100 = 4 * a + b"
    by (rule int_div_pos_eq[where r = "c * 4 + e"]) (use assms in \<open>simp_all add: z_def\<close>)
  have 400: "z div 400 = a"
    by (rule int_div_pos_eq[where r = "b * 100 + c * 4 + e"]) (use assms in \<open>simp_all add: z_def\<close>)
  have "days_before_year (z + 1) = z * 365 + z div 4 - z div 100 + z div 400"
    by (simp add: days_before_year_def)
  also have "\<dots> = 146097 * a + 36524 * b + 1461 * c + 365 * e"
    unfolding 4 100 400 by (simp add: z_def)
  finally show ?thesis by (simp add: z_def algebra_simps)
qed

lemma is_leap_decomposition:
  fixes a b c e :: int
  assumes "0 \<le> b" "b \<le> 3" "0 \<le> c" "c \<le> 24" "0 \<le> e" "e \<le> 3"
  shows "is_leap (a * 400 + 1 + b * 100 + c * 4 + e) \<longleftrightarrow> e = 3 \<and> (c \<noteq> 24 \<or> b = 3)"
proof -
  define y where "y = a * 400 + 1 + b * 100 + c * 4 + e"
  have 4: "y mod 4 = e + 1 \<or> (e = 3 \<and> y mod 4 = 0)"
  proof (cases "e = 3")
    case True
    have "y = 4 * (a * 100 + b * 25 + c + 1) + 0" by (simp add: y_def True)
    from int_mod_pos_eq[OF this] True show ?thesis by simp
  next
    case False
    have "y = 4 * (a * 100 + b * 25 + c) + (e + 1)" by (simp add: y_def)
    from int_mod_pos_eq[OF this] False assms(5,6) show ?thesis by simp
  qed
  have 100: "y mod 100 = c * 4 + 4" if "e = 3" "c \<noteq> 24"
  proof -
    have "y = 100 * (a * 4 + b) + (c * 4 + 4)" by (simp add: y_def that)
    from int_mod_pos_eq[OF this] that assms(3,4) show ?thesis by simp
  qed
  have h100: "y mod 100 = 0" if "e = 3" "c = 24"
  proof -
    have "y = 100 * (a * 4 + b + 1) + 0" by (simp add: y_def that)
    from int_mod_pos_eq[OF this] show ?thesis by simp
  qed
  have 400: "y mod 400 = b * 100 + 100" if "e = 3" "c = 24" "b \<noteq> 3"
  proof -
    have "y = 400 * a + (b * 100 + 100)" by (simp add: y_def that)
    from int_mod_pos_eq[OF this] that assms(1,2) show ?thesis by simp
  qed
  have h400: "y mod 400 = 0" if "e = 3" "c = 24" "b = 3"
  proof -
    have "y = 400 * (a + 1) + 0" by (simp add: y_def that)
    from int_mod_pos_eq[OF this] show ?thesis by simp
  qed
  have L: "is_leap y = (y mod 4 = 0 \<and> (y mod 100 \<noteq> 0 \<or> y mod 400 = 0))"
    by (simp add: is_leap_def)
  have "is_leap y \<longleftrightarrow> e = 3 \<and> (c \<noteq> 24 \<or> b = 3)"
  proof (cases "e = 3")
    case False
    with 4 assms(5) have "y mod 4 \<noteq> 0" by auto
    with False show ?thesis by (simp add: L)
  next
    case e: True
    with 4 have y4: "y mod 4 = 0" by auto
    show ?thesis
    proof (cases "c = 24")
      case False
      with 100[OF e False] assms(3) have "y mod 100 \<noteq> 0" by simp
      with y4 e False show ?thesis by (simp add: L)
    next
      case c: True
      show ?thesis
      proof (cases "b = 3")
        case True
        with h400[OF e c True] y4 e c show ?thesis by (simp add: L)
      next
        case False
        with 400[OF e c False] assms(1) have "y mod 400 \<noteq> 0" by simp
        with h100[OF e c] y4 e c False show ?thesis by (simp add: L)
      qed
    qed
  qed
  then show ?thesis by (simp add: y_def)
qed

lemma ord2ymd_props:
  assumes "1 \<le> n"
  shows "\<exists>y m d. ord2ymd n = (y, m, d) \<and> 1 \<le> y \<and> 1 \<le> m \<and> m \<le> 12 \<and> 1 \<le> d
           \<and> d \<le> days_in_month y m
           \<and> days_before_year y + days_before_month y m + d = n"
proof -
  define k where "k = n - 1"
  define a where "a = k div 146097" 
  define na where "na = k mod 146097"
  define b where "b = na div 36524" 
  define nb where "nb = na mod 36524"
  define c where "c = nb div 1461" 
  define nc where "nc = nb mod 1461"
  define e where "e = nc div 365" 
  define f where "f = nc mod 365"
  have k: "0 \<le> k" using assms by (simp add: k_def)
  note dec = ordinal_decomposition[OF k, folded a_def na_def, folded b_def nb_def,
      folded c_def nc_def, folded e_def f_def]
  define y where "y = a * 400 + 1 + b * 100 + c * 4 + e"
  define leap where "leap = (e = 3 \<and> (c \<noteq> 24 \<or> b = 3))"
  define month where "month = (f + 50) div 32"
  define preceding where
    "preceding = DAYS_BEFORE_MONTH ! nat month + (if 2 < month \<and> leap then 1 else 0)"
  define m where "m = (if f < preceding then month - 1 else month)"
  define d where "d = (if f < preceding
                 then f - (preceding - (DAYS_IN_MONTH ! nat (month - 1)
                                       + (if month - 1 = 2 \<and> leap then 1 else 0))) + 1
                 else f - preceding + 1)"
  have o: "ord2ymd n = (if e = 4 \<or> b = 4 then (y - 1, 12, 31) else (y, m, d))"
    unfolding ord2ymd_def Let_def k_def[symmetric] a_def[symmetric] na_def[symmetric]
          b_def[symmetric] nb_def[symmetric] c_def[symmetric] nc_def[symmetric]
          e_def[symmetric] f_def[symmetric] y_def[symmetric] leap_def[symmetric]
          month_def[symmetric] preceding_def[symmetric] m_def d_def
    by simp
  show ?thesis
  proof (cases "e = 4 \<or> b = 4")
    case True
    then consider (b) "b = 4" | (e) "e = 4" "b \<le> 3" using dec(4) by fastforce
    then have "1 \<le> y - 1 \<and> days_before_year (y - 1) + 335 + 31 = k + 1 \<and> is_leap (y - 1)"
    proof cases
      case b
      with dec(11) have z: "c = 0" "e = 0" "f = 0" by simp_all
      have y: "y - 1 = a * 400 + 1 + 3 * 100 + 24 * 4 + 3" by (simp add: y_def b z)
      have kk: "k = 146097 * a + 146096" using dec(1) by (simp add: b z)
      have "days_before_year (y - 1) = 146097 * a + 36524 * 3 + 1461 * 24 + 365 * 3"
        unfolding y by (rule days_before_year_decomposition) simp_all
      moreover have "is_leap (y - 1)"
        unfolding y by (subst is_leap_decomposition) simp_all
      ultimately show ?thesis using kk dec(2) by (simp add: y)
    next
      case e
      with dec(12) have z: "f = 0" "c \<le> 23" by simp_all
      have y: "y - 1 = a * 400 + 1 + b * 100 + c * 4 + 3" by (simp add: y_def e)
      have kk: "k = 146097 * a + 36524 * b + 1461 * c + 1460" using dec(1) by (simp add: e z)
      have "days_before_year (y - 1) = 146097 * a + 36524 * b + 1461 * c + 365 * 3"
        unfolding y by (rule days_before_year_decomposition) (use dec e z in simp_all)
      moreover have "is_leap (y - 1)"
        unfolding y by (subst is_leap_decomposition) (use dec e z in simp_all)
      ultimately show ?thesis using kk dec(2,3,5) by (simp add: y)
    qed
    then show ?thesis
      using True
      by (simp add: o days_before_month_def DAYS_BEFORE_MONTH_def k_def days_in_month_def
          DAYS_IN_MONTH_def)
  next
    case False
    then have be: "b \<le> 3" "e \<le> 3" using dec(4,8) by simp_all
    have dby: "days_before_year y = 146097 * a + 36524 * b + 1461 * c + 365 * e"
      unfolding y_def by (rule days_before_year_decomposition) (use dec be in simp_all)
    have lp: "is_leap y = leap"
      unfolding y_def leap_def by (rule is_leap_decomposition) (use dec be in simp_all)
    have md: "1 \<le> m \<and> m \<le> 12 \<and> 1 \<le> d
         \<and> d \<le> (if m = 2 \<and> leap then 29 else DAYS_IN_MONTH ! nat m)
         \<and> DAYS_BEFORE_MONTH ! nat m + (if 2 < m \<and> leap then 1 else 0) + d = f + 1"
      by (rule month_of_day[OF dec(9,10) month_def preceding_def m_def d_def])
    have "1 \<le> y" using dec(2,3,5,7) by (simp add: y_def)
    moreover have "days_before_year y + days_before_month y m + d = n"
      using md dec(1) by (simp add: dby days_before_month_def lp k_def)
    ultimately show ?thesis using False md by (simp add: o days_in_month_def lp)
  qed
qed

lemma ord2ymd_inverse: "1 \<le> n \<Longrightarrow> ymd2ord (ord2ymd n) = n"
  using ord2ymd_props[of n] by (auto simp: ymd2ord_def)

lemma days_before_year_large:
  assumes "10000 \<le> y"
  shows "3652059 \<le> days_before_year y"
proof -
  define z where "z = y - 1"
  define q where "q = z div 400"
  define r where "r = z mod 400"
  have z: "9999 \<le> z" using assms by (simp add: z_def)
  have zq: "z = 400 * q + r" by (simp add: q_def r_def)
  have r: "0 \<le> r" "r < 400" by (simp_all add: r_def)
  have 4: "z div 4 = 100 * q + r div 4"
    by (rule int_div_pos_eq[where r = "r mod 4"]) (simp_all add: zq)
  have 100: "z div 100 = 4 * q + r div 100"
    by (rule int_div_pos_eq[where r = "r mod 100"]) (simp_all add: zq)
  have le: "r div 100 \<le> r div 4" using r(1) by (simp add: zdiv_mono2)
  have e: "z * 365 + z div 4 - z div 100 + z div 400
           = 146097 * q + (365 * r + r div 4 - r div 100)"
    unfolding 4 100 q_def[symmetric] by (simp add: zq)
  have "3652059 \<le> 146097 * q + (365 * r + r div 4 - r div 100)"
  proof (cases "25 \<le> q")
    case True
    with le r(1) show ?thesis by linarith
  next
    case False
    with z zq r have "q = 24" "r = 399" by linarith+
    then show ?thesis by simp
  qed
  then show ?thesis by (simp add: days_before_year_def z_def[symmetric] e)
qed

lemma days_in_month_le:
  assumes "1 \<le> m" "m \<le> 12"
  shows "days_in_month y m \<le> 31" "0 \<le> days_before_month y m"
proof -
  have "m \<in> {1, 2, 3, 4, 5, 6, 7, 8, 9, 10, 11, 12}" using assms by simp presburger
  then show "days_in_month y m \<le> 31" "0 \<le> days_before_month y m"
    unfolding days_in_month_def DAYS_IN_MONTH_def days_before_month_def DAYS_BEFORE_MONTH_def
    by (elim insertE emptyE; simp)+
qed

lemma ord2ymd_range:
  assumes "1 \<le> n" "n \<le> MAXORDINAL" "ord2ymd n = (y, m, d)"
  shows "1 \<le> y \<and> y \<le> 9999 \<and> 1 \<le> m \<and> m \<le> 12 \<and> 1 \<le> d \<and> d \<le> days_in_month y m"
proof -
  from ord2ymd_props[OF assms(1)] assms(3)
  have p: "1 \<le> y" "1 \<le> m" "m \<le> 12" "1 \<le> d" "d \<le> days_in_month y m"
    "days_before_year y + days_before_month y m + d = n" by auto
  from days_in_month_le(2)[OF p(2,3), of y] p(4,6) assms(2) have "days_before_year y < 3652059"
    by (simp add: MAXORDINAL_def)
  with days_before_year_large[of y] have "y \<le> 9999" by linarith
  with p show ?thesis by simp
qed

lemma zfill_str_int_shape:
  assumes "0 \<le> v" "v < 10 ^ w" "0 < w"
  shows "length (zfill w (str_int v)) = w" "list_all is_digit (zfill w (str_int v))"
    "int (nat_of_digits (zfill w (str_int v))) = v"
proof -
  have s: "str_int v = str_nat (nat v)" using assms(1) by (simp add: str_int_def)
  have "nat v < 10 ^ w" using assms(1,2) by (simp add: nat_less_iff)
  from length_str_nat_bound[OF this assms(3)]
  show "length (zfill w (str_int v)) = w" by (simp add: s length_zfill)
  show "list_all is_digit (zfill w (str_int v))" by (simp add: s zfill_digits str_nat_digits)
  show "int (nat_of_digits (zfill w (str_int v))) = v"
    using assms(1) by (simp add: s nat_of_digits_zfill nat_of_digits_str_nat)
qed

lemma strftime_parts:
  assumes "0 \<le> y" "y \<le> 9999" "0 \<le> m" "m \<le> 99" "0 \<le> d" "d \<le> 99"
  defines "s \<equiv> strftime (y, m, d)"
  shows "length s = 10" "list_all is_digit (take 4 s)" "s ! 4 = CHR ''-''"
    "list_all is_digit (take 2 (drop 5 s))" "s ! 7 = CHR ''-''" "list_all is_digit (drop 8 s)"
    "int (nat_of_digits (take 4 s)) = y" "int (nat_of_digits (take 2 (drop 5 s))) = m"
    "int (nat_of_digits (drop 8 s)) = d"
proof -
  define Y where "Y = zfill 4 (str_int y)"
  define M where "M = zfill 2 (str_int m)"
  define D where "D = zfill 2 (str_int d)"
  have Y: "length Y = 4" "list_all is_digit Y" "int (nat_of_digits Y) = y"
    unfolding Y_def using assms(1,2) by (intro zfill_str_int_shape; simp)+
  have M: "length M = 2" "list_all is_digit M" "int (nat_of_digits M) = m"
    unfolding M_def using assms(3,4) by (intro zfill_str_int_shape; simp)+
  have D: "length D = 2" "list_all is_digit D" "int (nat_of_digits D) = d"
    unfolding D_def using assms(5,6) by (intro zfill_str_int_shape; simp)+
  have s: "s = Y @ CHR ''-'' # M @ CHR ''-'' # D"
    by (simp add: s_def strftime_def Y_def M_def D_def)
  show "length s = 10" by (simp add: s Y M D)
  show "list_all is_digit (take 4 s)" by (simp add: s Y)
  show "s ! 4 = CHR ''-''" by (simp add: s nth_append Y)
  show "list_all is_digit (take 2 (drop 5 s))" by (simp add: s Y M)
  show "s ! 7 = CHR ''-''" by (simp add: s nth_append Y M nth_Cons')
  show "list_all is_digit (drop 8 s)" by (simp add: s Y M D)
  show "int (nat_of_digits (take 4 s)) = y" by (simp add: s Y)
  show "int (nat_of_digits (take 2 (drop 5 s))) = m" by (simp add: s Y M)
  show "int (nat_of_digits (drop 8 s)) = d" by (simp add: s Y M D)
qed

lemma strftime_ord2ymd:
  assumes "1 \<le> n" "n \<le> MAXORDINAL"
  shows "is_date_string (strftime (ord2ymd n))"
proof -
  obtain y m d where o: "ord2ymd n = (y, m, d)" by (cases "ord2ymd n") auto
  from ord2ymd_range[OF assms o]
  have r: "1 \<le> y" "y \<le> 9999" "1 \<le> m" "m \<le> 12" "1 \<le> d" "d \<le> days_in_month y m" by simp_all
  from days_in_month_le(1)[OF r(3,4), of y] r(6) have d: "d \<le> 31" by simp
  have "0 \<le> y" "0 \<le> m" "m \<le> 99" "0 \<le> d" "d \<le> 99" using r d by simp_all
  note p = strftime_parts[OF this(1) r(2) this(2-5)]
  show ?thesis unfolding o is_date_string_def Let_def p using p(1-6) r by simp
qed

lemma strftime_ord2ymd_inj:
  assumes "1 \<le> n" "n \<le> MAXORDINAL" "1 \<le> k" "k \<le> MAXORDINAL"
    and "strftime (ord2ymd n) = strftime (ord2ymd k)"
  shows "n = k"
proof -
  obtain y m d where o: "ord2ymd n = (y, m, d)" by (cases "ord2ymd n") auto
  obtain y' m' d' where o': "ord2ymd k = (y', m', d')" by (cases "ord2ymd k") auto
  from ord2ymd_range[OF assms(1,2) o]
  have r: "1 \<le> y" "y \<le> 9999" "1 \<le> m" "m \<le> 12" "1 \<le> d" "d \<le> days_in_month y m" by simp_all
  from days_in_month_le(1)[OF r(3,4), of y] r(6) have d: "d \<le> 31" by simp
  have "0 \<le> y" "0 \<le> m" "m \<le> 99" "0 \<le> d" "d \<le> 99" using r d by simp_all
  note p = strftime_parts[OF this(1) r(2) this(2-5)]
  from ord2ymd_range[OF assms(3,4) o']
  have r': "1 \<le> y'" "y' \<le> 9999" "1 \<le> m'" "m' \<le> 12" "1 \<le> d'" "d' \<le> days_in_month y' m'" by simp_all
  from days_in_month_le(1)[OF r'(3,4), of y'] r'(6) have d': "d' \<le> 31" by simp
  have "0 \<le> y'" "0 \<le> m'" "m' \<le> 99" "0 \<le> d'" "d' \<le> 99" using r' d' by simp_all
  note p' = strftime_parts[OF this(1) r'(2) this(2-5)]
  from assms(5) have e: "strftime (y, m, d) = strftime (y', m', d')" by (simp add: o o')
  from p(7) p'(7) e have "y = y'" by simp
  moreover from p(8) p'(8) e have "m = m'" by simp
  moreover from p(9) p'(9) e have "d = d'" by simp
  ultimately have "ord2ymd n = ord2ymd k" by (simp add: o o')
  then have "ymd2ord (ord2ymd n) = ymd2ord (ord2ymd k)" by simp
  then show ?thesis by (simp add: ord2ymd_inverse assms(1,3))
qed

section \<open>Values of the defect branches and of the clean branches\<close>

lemma takes_defect_branch_iff:
  "takes_defect_branch a p r \<longleftrightarrow> (\<exists>r'. and_random_below a p r = Inr (True, r'))"
  "\<not> takes_defect_branch a p r \<longleftrightarrow> (\<exists>r'. and_random_below a p r = Inr (False, r'))"
  by (auto simp: takes_defect_branch_def and_random_below_def gbind_def random_def draw_def
      greturn_def split: sum.splits)

lemma generate_email_branches:
  assumes "generate_email f l a r = Inr (v, s)"
  shows "takes_defect_branch a (15 / 100) r \<Longrightarrow> v \<in> set (bad_emails f l)"
    and "\<not> takes_defect_branch a (15 / 100) r \<Longrightarrow>
         \<exists>d. v = lower f @ ''.'' @ lower l @ ''@'' @ d"
  using assms
  by (auto simp: generate_email_def takes_defect_branch_iff gbind_Inr_iff dest: choice_InrD)

lemma generate_phone_branches:
  assumes "generate_phone a r = Inr (v, s)"
  shows "takes_defect_branch a (10 / 100) r \<Longrightarrow> v \<in> set BAD_PHONES"
    and "\<not> takes_defect_branch a (10 / 100) r \<Longrightarrow> \<exists>t. v = ''+1-'' @ t"
  using assms
  by (auto simp: generate_phone_def takes_defect_branch_iff gbind_Inr_iff dest: choice_InrD)

lemma generate_date_branches:
  assumes "generate_date base_date days_range a r = Inr (v, s)"
  shows "takes_defect_branch a (5 / 100) r \<Longrightarrow> v \<in> set BAD_DATES"
    and "\<not> takes_defect_branch a (5 / 100) r \<Longrightarrow>
         \<exists>n. v = strftime (ord2ymd n) \<and> 1 \<le> n \<and> n \<le> MAXORDINAL
              \<and> ymd2ord base_date - days_range \<le> n \<and> n \<le> ymd2ord base_date + days_range"
proof -
  show "v \<in> set BAD_DATES" if "takes_defect_branch a (5 / 100) r"
    using assms that
    by (auto simp: generate_date_def takes_defect_branch_iff gbind_Inr_iff dest: choice_InrD)
  show "\<exists>n. v = strftime (ord2ymd n) \<and> 1 \<le> n \<and> n \<le> MAXORDINAL
              \<and> ymd2ord base_date - days_range \<le> n \<and> n \<le> ymd2ord base_date + days_range"
    if "\<not> takes_defect_branch a (5 / 100) r"
  proof -
    from assms that obtain offset r1 r2 where o: "randint (- days_range) days_range r1 = Inr (offset, r2)"
      and v: "v = strftime (ord2ymd (ymd2ord base_date + offset))"
      and n: "1 \<le> ymd2ord base_date + offset" "ymd2ord base_date + offset \<le> MAXORDINAL"
      by (auto simp: generate_date_def takes_defect_branch_iff gbind_Inr_iff date_plus_days_Inr_iff)
    from randint_InrD[OF o] v n show ?thesis
      by (intro exI[of _ "ymd2ord base_date + offset"]) simp
  qed
qed

lemma ymd2ord_2099: "ymd2ord (2099, 12, 31) = 766644"
  by (simp add: ymd2ord_def days_before_year_def days_before_month_def
      DAYS_BEFORE_MONTH_def is_leap_def)

lemma ord2ymd_2099: "ord2ymd 766644 = (2099, 12, 31)"
  by (simp add: ord2ymd_def Let_def DAYS_BEFORE_MONTH_def DAYS_IN_MONTH_def)

lemma strftime_2099: "strftime (2099, 12, 31) = ''2099-12-31''"
  by (simp add: strftime_def str_int_def zfill_def digit_char_def)

lemma bad_dates_not_dates:
  "\<not> is_date_string ''2026-13-45''" "\<not> is_date_string ''NOT_A_DATE''" "\<not> is_date_string []"
  by (simp_all add: is_date_string_def nat_of_digits_def is_digit_def)

lemma clean_date_not_bad:
  assumes "1 \<le> n" "n \<le> MAXORDINAL" "n \<noteq> ymd2ord (2099, 12, 31)"
  shows "strftime (ord2ymd n) \<notin> set BAD_DATES"
proof
  assume "strftime (ord2ymd n) \<in> set BAD_DATES"
  then consider "strftime (ord2ymd n) = ''2026-13-45''" | "strftime (ord2ymd n) = ''NOT_A_DATE''"
    | "strftime (ord2ymd n) = ''2099-12-31''" | "strftime (ord2ymd n) = []"
    by (auto simp: BAD_DATES_def)
  then show False
  proof cases
    case 3
    then have "strftime (ord2ymd n) = strftime (ord2ymd 766644)"
      by (simp add: ord2ymd_2099 strftime_2099)
    from strftime_ord2ymd_inj[OF assms(1,2) _ _ this] assms(3) show False
      by (simp add: MAXORDINAL_def ymd2ord_2099)
  qed (use strftime_ord2ymd[OF assms(1,2)] bad_dates_not_dates in auto)
qed

lemma clean_email_not_bad: "lower f @ ''.'' @ lower l @ ''@'' @ d \<notin> set (bad_emails f l)"
  by (simp add: bad_emails_def)

lemma clean_phone_not_bad: "''+1-'' @ t \<notin> set BAD_PHONES"
  by (simp add: BAD_PHONES_def)

lemma takes_defect_branch_const:
  "takes_defect_branch True p (const_source c) \<longleftrightarrow> random_of_draw c < p"
  "\<not> takes_defect_branch False p r"
  by (simp_all add: takes_defect_branch_def and_random_below_def random_def gbind_def draw_def
      greturn_def const_source_def)

lemma random_of_draw_values:
  "random_of_draw 0 = 0" "random_of_draw (2 ^ 52) = 1 / 2" "random_of_draw 4503599627370496 = 1 / 2"
  by (simp_all add: random_of_draw_def)

text \<open>
  C6, the failing case. \<^verbatim>\<open>generate_date(datetime(2099, 12, 31), 0, True)\<close> returns
  \<^verbatim>\<open>"2099-12-31"\<close> on its defect branch (first draw below 5%, then the third literal) and
  returns the same string on its clean branch (first draw \<open>1/2\<close>, then offset 0).
\<close>

theorem defect_clean_overlap_counterexample:
  "generate_date (2099, 12, 31) 0 True (prepend [0, 2] (const_source 0))
     = Inr (''2099-12-31'', const_source 0)
   \<and> takes_defect_branch True (5 / 100) (prepend [0, 2] (const_source 0))
   \<and> generate_date (2099, 12, 31) 0 True (prepend [2 ^ 52, 0] (const_source 0))
     = Inr (''2099-12-31'', const_source 0)
   \<and> \<not> takes_defect_branch True (5 / 100) (prepend [2 ^ 52, 0] (const_source 0))"
  by (simp add: generate_date_def and_random_below_def takes_defect_branch_def gbind_def
      greturn_def lift_def random_of_draw_values BAD_DATES_def date_plus_days_def ymd2ord_2099
      MAXORDINAL_def ord2ymd_2099 strftime_2099)

text \<open>
  C6, as the code has it. A call of \<^verbatim>\<open>generate_email\<close> or \<^verbatim>\<open>generate_phone\<close> that takes the
  defect branch returns a value that no call with the same arguments returns on the clean
  branch; for \<^verbatim>\<open>generate_date\<close> this holds when 2099-12-31 is not within \<open>days_range\<close> days
  of \<open>base_date\<close>, which is the case for the only call of the scripts that enables defects
  (\<^verbatim>\<open>generate_date(datetime(1970, 1, 1), 365 * 40, add_issues)\<close>).
\<close>

theorem defect_branch_values_not_clean:
  "(generate_email f l a r = Inr (v, s) \<and> takes_defect_branch a (15 / 100) r \<and>
    generate_email f l a' r' = Inr (w, s') \<and> \<not> takes_defect_branch a' (15 / 100) r'
      \<longrightarrow> v \<noteq> w) \<and>
   (generate_phone a r = Inr (v, s) \<and> takes_defect_branch a (10 / 100) r \<and>
    generate_phone a' r' = Inr (w, s') \<and> \<not> takes_defect_branch a' (10 / 100) r'
      \<longrightarrow> v \<noteq> w) \<and>
   ((ymd2ord base_date + days_range < ymd2ord (2099, 12, 31)
       \<or> ymd2ord (2099, 12, 31) < ymd2ord base_date - days_range) \<and>
    generate_date base_date days_range a r = Inr (v, s) \<and> takes_defect_branch a (5 / 100) r \<and>
    generate_date base_date days_range a' r' = Inr (w, s') \<and> \<not> takes_defect_branch a' (5 / 100) r'
      \<longrightarrow> v \<noteq> w)"
proof (intro conjI impI; elim conjE)
  assume "generate_email f l a r = Inr (v, s)" "takes_defect_branch a (15 / 100) r"
    "generate_email f l a' r' = Inr (w, s')" "\<not> takes_defect_branch a' (15 / 100) r'"
  from generate_email_branches(1)[OF this(1,2)] generate_email_branches(2)[OF this(3,4)]
  show "v \<noteq> w" using clean_email_not_bad by auto
next
  assume "generate_phone a r = Inr (v, s)" "takes_defect_branch a (10 / 100) r"
    "generate_phone a' r' = Inr (w, s')" "\<not> takes_defect_branch a' (10 / 100) r'"
  from generate_phone_branches(1)[OF this(1,2)] generate_phone_branches(2)[OF this(3,4)]
  show "v \<noteq> w" using clean_phone_not_bad by auto
next
  assume far: "ymd2ord base_date + days_range < ymd2ord (2099, 12, 31)
       \<or> ymd2ord (2099, 12, 31) < ymd2ord base_date - days_range"
    and "generate_date base_date days_range a r = Inr (v, s)" "takes_defect_branch a (5 / 100) r"
    "generate_date base_date days_range a' r' = Inr (w, s')" "\<not> takes_defect_branch a' (5 / 100) r'"
  from generate_date_branches(1)[OF this(2,3)] generate_date_branches(2)[OF this(4,5)]
  obtain n where v: "v \<in> set BAD_DATES" and w: "w = strftime (ord2ymd n)"
    and n: "1 \<le> n" "n \<le> MAXORDINAL" "ymd2ord base_date - days_range \<le> n"
      "n \<le> ymd2ord base_date + days_range" by blast
  from far n(3,4) have "n \<noteq> ymd2ord (2099, 12, 31)" by auto
  from clean_date_not_bad[OF n(1,2) this] v w show "v \<noteq> w" by auto
qed

theorem defect_branch_values_not_clean_witness:
  "(\<exists>v s w s'. generate_email ''Jane'' ''Smith'' True (const_source 0) = Inr (v, s) \<and>
      takes_defect_branch True (15 / 100) (const_source 0) \<and>
      generate_email ''Jane'' ''Smith'' True (const_source (2 ^ 52)) = Inr (w, s') \<and>
      \<not> takes_defect_branch True (15 / 100) (const_source (2 ^ 52)) \<and> v \<noteq> w) \<and>
   (\<exists>v s w s'. generate_phone True (const_source 0) = Inr (v, s) \<and>
      takes_defect_branch True (10 / 100) (const_source 0) \<and>
      generate_phone False (const_source 0) = Inr (w, s') \<and>
      \<not> takes_defect_branch False (10 / 100) (const_source 0) \<and> v \<noteq> w) \<and>
   (\<exists>v s w s'. ymd2ord (1970, 1, 1) + 365 * 40 < ymd2ord (2099, 12, 31) \<and>
      generate_date (1970, 1, 1) (365 * 40) True (const_source 0) = Inr (v, s) \<and>
      takes_defect_branch True (5 / 100) (const_source 0) \<and>
      generate_date (1970, 1, 1) (365 * 40) True (const_source (2 ^ 52)) = Inr (w, s') \<and>
      \<not> takes_defect_branch True (5 / 100) (const_source (2 ^ 52)) \<and> v \<noteq> w)"
proof -
  have t: "takes_defect_branch True (15 / 100) (const_source 0)"
    "\<not> takes_defect_branch True (15 / 100) (const_source (2 ^ 52))"
    "takes_defect_branch True (10 / 100) (const_source 0)"
    "\<not> takes_defect_branch False (10 / 100) (const_source 0)"
    "takes_defect_branch True (5 / 100) (const_source 0)"
    "\<not> takes_defect_branch True (5 / 100) (const_source (2 ^ 52))"
    by (simp_all add: takes_defect_branch_const random_of_draw_values)
  have far: "ymd2ord (1970, 1, 1) + 365 * 40 < ymd2ord (2099, 12, 31)"
    by (simp add: ymd2ord_epoch ymd2ord_2099)
  obtain v1 s1 where e1: "generate_email ''Jane'' ''Smith'' True (const_source 0) = Inr (v1, s1)"
    using totalD[OF total_generate_email] by blast
  obtain w1 q1 where e2: "generate_email ''Jane'' ''Smith'' True (const_source (2 ^ 52)) = Inr (w1, q1)"
    using totalD[OF total_generate_email] by blast
  obtain v2 s2 where p1: "generate_phone True (const_source 0) = Inr (v2, s2)"
    using totalD[OF total_generate_phone] by blast
  obtain w2 q2 where p2: "generate_phone False (const_source 0) = Inr (w2, q2)"
    using totalD[OF total_generate_phone] by blast
  have td: "total (generate_date (1970, 1, 1) (365 * 40) True)"
    by (rule total_generate_date_epoch) simp_all
  obtain v3 s3 where d1: "generate_date (1970, 1, 1) (365 * 40) True (const_source 0) = Inr (v3, s3)"
    using totalD[OF td] by blast
  obtain w3 q3 where d2: "generate_date (1970, 1, 1) (365 * 40) True (const_source (2 ^ 52)) = Inr (w3, q3)"
    using totalD[OF td] by blast
  have "v1 \<noteq> w1"
    using defect_branch_values_not_clean[of "''Jane''" "''Smith''" True "const_source 0" v1 s1
        True "const_source (2 ^ 52)" w1 q1] e1 e2 t by blast
  moreover have "v2 \<noteq> w2"
    using defect_branch_values_not_clean[of _ _ True "const_source 0" v2 s2
        False "const_source 0" w2 q2] p1 p2 t by blast
  moreover have "v3 \<noteq> w3"
    using defect_branch_values_not_clean[of _ _ True "const_source 0" v3 s3
        True "const_source (2 ^ 52)" w3 q3 "(1970, 1, 1)" "365 * 40"] d1 d2 t far by blast
  ultimately show ?thesis using e1 e2 p1 p2 d1 d2 t far by blast
qed

section \<open>The daily balances as a function of the draws\<close>

lemma to_double_int:
  assumes "\<bar>m\<bar> < 2 ^ 53"
  shows "to_double (of_int m) = of_int m"
proof (rule to_double_exact[where m = m and i = 0])
  show "rat_of_int m = rat_of_int m * 2 powi 0" by simp
  have "\<bar>rat_of_int m\<bar> = rat_of_int \<bar>m\<bar>" by simp
  also have "\<dots> < rat_of_int (2 ^ 53)" using assms by (simp only: of_int_less_iff)
  finally show "\<bar>rat_of_int m\<bar> < 2 powi (0 + 53)" by simp
qed

lemma to_double_numeral [simp]:
  "numeral w < (2 ^ 53 :: int) \<Longrightarrow> to_double (numeral w) = numeral w"
  "numeral w < (2 ^ 53 :: int) \<Longrightarrow> to_double (- numeral w) = - numeral w"
  using to_double_int[of "numeral w"] to_double_int[of "- numeral w"] by simp_all

lemma uniform_of_draw_three_quarters:
  "uniform_of_draw (- 1000) 1000 (3 * 2 ^ 51) = 500"
  "uniform_of_draw (- 1000) 1000 6755399441055744 = 500"
  by (simp_all add: uniform_of_draw_def random_of_draw_def fadd_def fmul_def fsub_def)

lemma py_float_250: "py_float ''250.00'' = Inr 250"
  by (simp add: py_float_def parse_decimal_def is_digit_def nat_of_digits_def Let_def)

lemma format_f2_examples: "format_f 2 250 = ''250.00''" "format_f 2 750 = ''750.00''"
  by (simp_all add: format_f_def round_half_even_def zfill_def digit_char_def)

text \<open>
  C2. \<^verbatim>\<open>generate_daily_balances\<close> (the same function in both scripts) makes one draw per
  record, so record \<open>k\<close> of account \<open>j\<close>, at index \<open>n = j * days + k\<close> of the returned list, is
  written when \<open>n\<close> draws of the source \<open>r\<close> have been made, and its delta is what
  \<^verbatim>\<open>random.uniform(-1000, 1000)\<close> returns on draw \<open>n\<close> of \<open>r\<close>. The running balance of the
  account starts as \<^verbatim>\<open>float\<close> of its balance field and grows by the delta of each of its
  records (\<open>walk\<close>). The record's opening balance is the running balance formatted to two
  decimals, its closing balance is the running balance plus the record's delta, formatted,
  and the next record of the account opens with that same string. The first record opens
  with the account's balance field itself whenever \<^verbatim>\<open>generate_accounts\<close> wrote that field.
\<close>

theorem daily_balance_chaining:
  assumes "generate_daily_balances accounts days r = Inr (bals, r')
           \<or> pure_generate_daily_balances accounts days r = Inr (bals, r')"
    and "j < length accounts" and "k < nat days"
  shows "\<exists>b v opening delta.
           getitem (accounts ! j) ''balance'' = Inr b \<and> py_float b = Inr v \<and>
           opening = walk v (shift (j * nat days) r) k \<and>
           uniform (- 1000) 1000 (shift (j * nat days + k) r)
             = Inr (delta, shift (Suc (j * nat days + k)) r) \<and>
           getitem (bals ! (j * nat days + k)) ''opening_balance'' = Inr (format_f 2 opening) \<and>
           getitem (bals ! (j * nat days + k)) ''closing_balance''
             = Inr (format_f 2 (fadd opening delta)) \<and>
           walk v (shift (j * nat days) r) (Suc k) = fadd opening delta \<and>
           (Suc k < nat days \<longrightarrow>
              getitem (bals ! (j * nat days + Suc k)) ''opening_balance''
                = getitem (bals ! (j * nat days + k)) ''closing_balance'') \<and>
           getitem (bals ! (j * nat days)) ''opening_balance'' = Inr (format_f 2 v) \<and>
           (generated_balance b \<longrightarrow> getitem (bals ! (j * nat days)) ''opening_balance'' = Inr b) \<and>
           r' = shift (length accounts * nat days) r"
proof -
  note g = generate_daily_balances_Inr[OF assms(1)]
  let ?base = "account_base (accounts ! j)"
  let ?r = "shift (j * nat days) r"
  have sh: "?r = (\<lambda>i. r (i + j * nat days))" by (simp add: shift_def)
  from g(3) assms(2) obtain b v where b: "getitem (accounts ! j) ''balance'' = Inr b"
    and v: "py_float b = Inr v" by (metis nth_mem)
  then have base: "?base = v" by (simp add: account_base_def)
  have row: "bals ! (j * nat days + k') =
       balance_row (accounts ! j) (0 + j * nat days + k') k' (walk v ?r k') (walk v ?r (Suc k'))"
    if "k' < nat days" for k'
    unfolding g(1) sh base[symmetric] by (rule balance_rows_nth[OF assms(2) that])
  have d0: "0 < nat days" using assms(3) by simp
  let ?delta = "uniform_of_draw (- 1000) 1000 (r (j * nat days + k))"
  have u: "uniform (- 1000) 1000 (shift (j * nat days + k) r)
             = Inr (?delta, shift (Suc (j * nat days + k)) r)"
    by (simp add: uniform_eq shift_def)
  have w: "walk v ?r (Suc k) = fadd (walk v ?r k) ?delta"
    by (simp add: shift_def ac_simps)
  have open0: "getitem (bals ! (j * nat days)) ''opening_balance'' = Inr (format_f 2 v)"
    using row[OF d0] by simp
  have gen: "getitem (bals ! (j * nat days)) ''opening_balance'' = Inr b" if "generated_balance b"
    using generated_balance_roundtrip[OF that] v open0 by auto
  have o: "getitem (bals ! (j * nat days + k)) ''opening_balance'' = Inr (format_f 2 (walk v ?r k))"
    and c: "getitem (bals ! (j * nat days + k)) ''closing_balance''
              = Inr (format_f 2 (fadd (walk v ?r k) ?delta))"
    unfolding row[OF assms(3)] w[symmetric] by (simp_all del: walk.simps)
  have n: "getitem (bals ! (j * nat days + Suc k)) ''opening_balance''
             = getitem (bals ! (j * nat days + k)) ''closing_balance''" if "Suc k < nat days"
    unfolding c unfolding row[OF that] w[symmetric] by (simp del: walk.simps)
  have e: "r' = shift (length accounts * nat days) r"
    using g(2) by (simp add: shift_def)
  from b v u o c w n open0 gen e show ?thesis by blast
qed

theorem daily_balance_chaining_witness:
  "\<exists>bals r'. generate_daily_balances sample_accounts 3 (const_source (3 * 2 ^ 51)) = Inr (bals, r') \<and>
     getitem (bals ! 0) ''opening_balance'' = Inr ''250.00'' \<and>
     getitem (bals ! 0) ''closing_balance'' = Inr ''750.00'' \<and>
     getitem (bals ! 1) ''opening_balance'' = Inr ''750.00''"
proof -
  let ?r = "const_source (3 * 2 ^ 51)"
  have "total (generate_daily_balances sample_accounts 3)"
    by (rule total_generate_daily_balances[OF sample_accounts_valid]) simp
  from totalD[OF this]
  obtain bals r' where g: "generate_daily_balances sample_accounts 3 ?r = Inr (bals, r')"
    by blast
  have j: "0 < length sample_accounts" by (simp add: sample_accounts_def)
  have b: "getitem (sample_accounts ! 0) ''balance'' = Inr ''250.00''"
    by (simp add: sample_accounts_def getitem_def)
  have k: "0 < nat 3" by simp
  from daily_balance_chaining[OF disjI1[OF g] j k]
  obtain v ob dl where "py_float ''250.00'' = Inr v"
    and "ob = walk v (shift (0 * nat 3) ?r) 0"
    and "uniform (- 1000) 1000 (shift (0 * nat 3 + 0) ?r) = Inr (dl, shift (Suc (0 * nat 3 + 0)) ?r)"
    and "getitem (bals ! (0 * nat 3 + 0)) ''opening_balance'' = Inr (format_f 2 ob)"
    and "getitem (bals ! (0 * nat 3 + 0)) ''closing_balance'' = Inr (format_f 2 (fadd ob dl))"
    and "Suc 0 < nat 3 \<longrightarrow> getitem (bals ! (0 * nat 3 + Suc 0)) ''opening_balance''
                = getitem (bals ! (0 * nat 3 + 0)) ''closing_balance''"
    unfolding b by blast
  then have "getitem (bals ! 0) ''opening_balance'' = Inr ''250.00'' \<and>
     getitem (bals ! 0) ''closing_balance'' = Inr ''750.00'' \<and>
     getitem (bals ! 1) ''opening_balance'' = Inr ''750.00''"
    by (simp add: py_float_250 uniform_eq shift_def const_source_def uniform_of_draw_three_quarters
        fadd_def format_f2_examples)
  with g show ?thesis by blast
qed

section \<open>The account count and the float product\<close>

lemma ilog2_eq:
  assumes "0 < x" "2 powi i \<le> x" "x < 2 powi (i + 1)"
  shows "ilog2 x = i"
proof -
  have "ilog2 x < i + 1" using assms(1,3) by (rule ilog2_less)
  moreover have "i \<le> ilog2 x"
  proof (rule ccontr)
    assume "\<not> i \<le> ilog2 x"
    then have "ilog2 x + 1 \<le> i" by simp
    then have "(2::rat) powi (ilog2 x + 1) \<le> 2 powi i" by (intro power_int_increasing) auto
    with ilog2_bounds(2)[OF assms(1)] assms(2) show False by simp
  qed
  ultimately show ?thesis by simp
qed

lemma to_double_eval:
  assumes "0 < x" "2 powi i \<le> x" "x < 2 powi (i + 1)" "i \<le> 52"
  shows "to_double x = of_int (round_half_even (x * 2 ^ nat (52 - i))) / 2 ^ nat (52 - i)"
proof -
  define k where "k = nat (52 - i)"
  have e: "ilog2 \<bar>x\<bar> - 52 = - int k"
    using ilog2_eq[OF assms(1-3)] assms(1,4) by (simp add: k_def)
  have p: "(2::rat) powi (- int k) = 1 / 2 ^ k"
    by (simp add: power_int_minus field_simps)
  show ?thesis
    using assms(1) unfolding to_double_def Let_def e p k_def[symmetric] by simp
qed

lemma round_half_even_eqI:
  assumes "of_int n - 1 / 2 < x" "x < of_int n + 1 / 2"
  shows "round_half_even x = n"
proof -
  have "\<lfloor>x\<rfloor> = n \<or> \<lfloor>x\<rfloor> = n - 1" using assms by linarith
  then show ?thesis
  proof
    assume f: "\<lfloor>x\<rfloor> = n"
    then have "x - of_int n < 1 / 2" using assms by simp
    then show ?thesis by (simp add: round_half_even_def f Let_def)
  next
    assume f: "\<lfloor>x\<rfloor> = n - 1"
    then have "1 / 2 < x - of_int (n - 1)" using assms by simp
    then show ?thesis by (simp add: round_half_even_def f Let_def)
  qed
qed

lemma round_half_even_tie:
  assumes "x = of_int n + 1 / 2"
  shows "round_half_even x = (if even n then n else n + 1)"
proof -
  have f: "\<lfloor>x\<rfloor> = n" unfolding assms by linarith
  show ?thesis by (simp add: round_half_even_def f Let_def) (simp add: assms)
qed

lemma to_double_seven_tenths: "to_double (7 / 10) = 6305039478318694 / 2 ^ 53"
proof -
  have "round_half_even (7 / 10 * 2 ^ 53) = 6305039478318694"
    by (rule round_half_even_eqI) simp_all
  with to_double_eval[of "7 / 10" "- 1"] show ?thesis by (simp add: power_int_minus)
qed

lemma fmul_ten_seven_tenths: "fmul 10 (to_double (7 / 10)) = 7"
proof -
  have "round_half_even (10 * (6305039478318694 / 2 ^ 53) * 2 ^ 50) = 7881299347898368"
    using round_half_even_tie[of "10 * (6305039478318694 / 2 ^ 53) * 2 ^ 50" 7881299347898367]
    by simp
  with to_double_eval[of "10 * (6305039478318694 / 2 ^ 53)" 2] show ?thesis
    unfolding fmul_def to_double_seven_tenths by simp
qed

lemma to_double_57_100: "to_double (57 / 100) = 5134103575202365 / 2 ^ 53"
proof -
  have "round_half_even (57 / 100 * 2 ^ 53) = 5134103575202365"
    by (rule round_half_even_eqI) simp_all
  with to_double_eval[of "57 / 100" "- 1"] show ?thesis by (simp add: power_int_minus)
qed

lemma fmul_100_57: "fmul 100 (to_double (57 / 100)) = 8022036836253695 / 2 ^ 47"
proof -
  have "round_half_even (100 * (5134103575202365 / 2 ^ 53) * 2 ^ 47) = 8022036836253695"
    by (rule round_half_even_eqI) simp_all
  with to_double_eval[of "100 * (5134103575202365 / 2 ^ 53)" 5] show ?thesis
    unfolding fmul_def to_double_57_100 by simp
qed

text \<open>
  C3, the failing cases. The number of accounts is \<^verbatim>\<open>int(len(customers) * ratio)\<close>, and the
  float product is rounded before it is truncated. With ten customers and the float 0.7 as
  ratio the script makes 7 accounts, and the floor of ten times that float is 6 (the float
  lies below 7/10, the product rounds up to 7.0). With a hundred customers and the float
  0.57 it makes 56 accounts, and the floor of 100 times 0.57 is 57.
\<close>

theorem row_count_floor_counterexample:
  "(\<exists>accounts r1.
      generate_accounts (replicate 10 (sample_customers ! 0)) (to_double (7 / 10)) (const_source 0)
        = Inr (accounts, r1) \<and>
      length accounts = 7) \<and>
   \<lfloor>rat_of_nat 10 * to_double (7 / 10)\<rfloor> = 6 \<and>
   (\<exists>accounts r1.
      generate_accounts (replicate 100 (sample_customers ! 0)) (to_double (57 / 100)) (const_source 0)
        = Inr (accounts, r1) \<and>
      length accounts = 56) \<and>
   \<lfloor>rat_of_nat 100 * (57 / 100)\<rfloor> = 57"
proof -
  have k: "list_all (has_keys [''customer_id'']) (replicate n (sample_customers ! 0))" for n
    by (simp add: sample_customers_def has_keys_def list_all_iff)
  have "total (generate_accounts (replicate 10 (sample_customers ! 0)) (to_double (7 / 10)))"
    by (rule total_generate_accounts(1)[OF k]) (simp add: fmul_ten_seven_tenths)
  then obtain a1 r1 where
    g1: "generate_accounts (replicate 10 (sample_customers ! 0)) (to_double (7 / 10)) (const_source 0)
          = Inr (a1, r1)"
    using totalD by blast
  from generate_accounts_length[OF disjI1[OF g1]] have l1: "length a1 = 7"
    by (simp add: fmul_ten_seven_tenths int_of_float_Inr_iff)
  have "total (generate_accounts (replicate 100 (sample_customers ! 0)) (to_double (57 / 100)))"
    by (rule total_generate_accounts(1)[OF k]) (simp add: fmul_100_57)
  then obtain a2 r2 where
    g2: "generate_accounts (replicate 100 (sample_customers ! 0)) (to_double (57 / 100)) (const_source 0)
          = Inr (a2, r2)"
    using totalD by blast
  have "\<lfloor>(8022036836253695 :: rat) / 2 ^ 47\<rfloor> = 56"
    by (rule floor_unique) simp_all
  with generate_accounts_length[OF disjI1[OF g2]] have l2: "length a2 = 56"
    by (simp add: fmul_100_57 int_of_float_Inr_iff)
  have f1: "\<lfloor>rat_of_nat 10 * to_double (7 / 10)\<rfloor> = 6"
    unfolding to_double_seven_tenths by (rule floor_unique) simp_all
  have f2: "\<lfloor>rat_of_nat 100 * (57 / 100)\<rfloor> = 57" by simp
  from g1 l1 g2 l2 f1 f2 show ?thesis by blast
qed

section \<open>The clean script and the defect script with given probabilities\<close>

lemma variant_source_fields:
  "variant_generate_email source_probs = generate_email"
  "variant_generate_phone source_probs = generate_phone"
  "variant_generate_date source_probs = generate_date"
  by (intro ext, simp add: variant_generate_email_def generate_email_def
      variant_generate_phone_def generate_phone_def variant_generate_date_def generate_date_def
      source_probs_def)+

lemma variant_source_bodies:
  "variant_customer_body source_probs = customer_body"
  "variant_account_body source_probs = account_body"
  "variant_transaction_body source_probs = transaction_body"
  "variant_fx_rate_body source_probs = fx_rate_body"
  by (intro ext, simp add: variant_customer_body_def customer_body_def variant_source_fields
      variant_account_body_def account_body_def variant_transaction_body_def transaction_body_def
      variant_fx_rate_body_def fx_rate_body_def,
      simp add: source_probs_def)+

lemma variant_source_fx_currencies:
  "variant_fx_currencies source_probs date cs = fx_currencies date cs"
proof
  fix rates
  show "variant_fx_currencies source_probs date cs rates = fx_currencies date cs rates"
    by (induction cs arbitrary: rates) (auto simp: variant_source_bodies)
qed

lemma variant_source_fx_days:
  "variant_fx_days source_probs day n = fx_days day n"
proof (induction n arbitrary: day)
  case 0
  show ?case by (intro ext) simp
next
  case (Suc n)
  show ?case by (intro ext) (simp add: variant_source_fx_currencies Suc.IH)
qed

lemma variant_source:
  "variant_generate_customers source_probs = generate_customers"
  "variant_generate_accounts source_probs = generate_accounts"
  "variant_generate_transactions source_probs = generate_transactions"
  "variant_generate_fx_rates source_probs = generate_fx_rates"
  by (intro ext, simp add: variant_generate_customers_def generate_customers_def
      variant_generate_accounts_def generate_accounts_def
      variant_generate_transactions_def generate_transactions_def variant_source_bodies
      variant_generate_fx_rates_def generate_fx_rates_def variant_source_fx_days)+

lemma entry_points:
  "main = entry_point generate_customers generate_accounts generate_transactions
            generate_daily_balances generate_fx_rates OUTPUT_DIR"
  "pure_main = entry_point pure_generate_customers pure_generate_accounts
            pure_generate_transactions pure_generate_daily_balances pure_generate_fx_rates
            pure_OUTPUT_DIR"
  "main = variant_main source_probs OUTPUT_DIR"
  unfolding variant_main_def variant_source main_def[abs_def] pure_main_def[abs_def]
    entry_point_def[abs_def] write_csv_def pure_write_csv_def
  by (rule refl)+

lemma variant_generate_date_prepend:
  assumes "0 \<le> d" "1 \<le> ymd2ord dt - d" "ymd2ord dt + d \<le> MAXORDINAL"
  shows "variant_generate_date P dt d False (prepend (x # xs) r) = Inr (clean_date dt d x, prepend xs r)"
  using assms date_plus_days_draw[OF assms, of x]
  by (simp add: variant_generate_date_def and_random_below_def clean_date_def lift_def greturn_def gbind_def)

lemmas date_prepend_simps [simp] =
  pure_generate_date_prepend[of 365 TODAY, simplified ymd2ord_TODAY MAXORDINAL_def, simplified]
  pure_generate_date_prepend[of 730 TODAY, simplified ymd2ord_TODAY MAXORDINAL_def, simplified]
  pure_generate_date_prepend[of 30 TODAY, simplified ymd2ord_TODAY MAXORDINAL_def, simplified]
  pure_generate_date_prepend[of 90 TODAY, simplified ymd2ord_TODAY MAXORDINAL_def, simplified]
  pure_generate_date_prepend[of "365 * 40" "(1970, 1, 1)", simplified ymd2ord_epoch MAXORDINAL_def, simplified]
  variant_generate_date_prepend[of 365 TODAY, simplified ymd2ord_TODAY MAXORDINAL_def, simplified]
  variant_generate_date_prepend[of 730 TODAY, simplified ymd2ord_TODAY MAXORDINAL_def, simplified]
  variant_generate_date_prepend[of 30 TODAY, simplified ymd2ord_TODAY MAXORDINAL_def, simplified]
  variant_generate_date_prepend[of 90 TODAY, simplified ymd2ord_TODAY MAXORDINAL_def, simplified]
  variant_generate_date_prepend[of "365 * 40" "(1970, 1, 1)", simplified ymd2ord_epoch MAXORDINAL_def, simplified]

lemma email_prepend [simp]:
  "pure_generate_email f l (prepend (x # xs) r) = Inr (clean_email f l x, prepend xs r)"
  "variant_generate_email P f l False (prepend (x # xs) r) = Inr (clean_email f l x, prepend xs r)"
  by (simp_all add: pure_generate_email_def variant_generate_email_def and_random_below_def
      clean_email_def greturn_def gbind_def)

lemma phone_prepend [simp]:
  "pure_generate_phone (prepend (x # y # z # xs) r) = Inr (clean_phone x y z, prepend xs r)"
  "variant_generate_phone P False (prepend (x # y # z # xs) r) = Inr (clean_phone x y z, prepend xs r)"
  by (simp_all add: pure_generate_phone_def variant_generate_phone_def and_random_below_def
      clean_phone_def greturn_def gbind_def)

lemma pure_customer_body_prepend:
  "pure_customer_body i (prepend (a0 # a1 # a2 # a3 # a4 # a5 # a6 # a7 # a8 # a9 # xs) r)
     = Inr ([(''customer_id'', ''CUST'' @ zfill 6 (str_nat (i + 1))),
             (''first_name'', FIRST_NAMES ! (a0 mod length FIRST_NAMES)),
             (''last_name'', LAST_NAMES ! (a1 mod length LAST_NAMES)),
             (''email'', clean_email (FIRST_NAMES ! (a0 mod length FIRST_NAMES))
                           (LAST_NAMES ! (a1 mod length LAST_NAMES)) a2),
             (''phone'', clean_phone a3 a4 a5),
             (''date_of_birth'', clean_date (1970, 1, 1) 14600 a6),
             (''country'', COUNTRIES ! (a7 mod length COUNTRIES)),
             (''kyc_status'', KYC_STATUSES ! (a8 mod length KYC_STATUSES)),
             (''created_date'', clean_date TODAY 365 a9),
             (''last_updated'', strftime TODAY)], prepend xs r)"
  by (simp add: pure_customer_body_def gbind_def greturn_def)

lemma variant_customer_body_prepend:
  assumes "clean_draw P D0" "clean_draw P D1" "clean_draw P D2" "clean_draw P D3" "clean_draw P D4"
  shows "variant_customer_body P i
           (prepend (a0 # a1 # D0 # D1 # D2 # D3 # a2 # a3 # a4 # a5 # a6 # D4 # a7 # a8 # a9 # xs) r)
     = Inr ([(''customer_id'', ''CUST'' @ zfill 6 (str_nat (i + 1))),
             (''first_name'', FIRST_NAMES ! (a0 mod length FIRST_NAMES)),
             (''last_name'', LAST_NAMES ! (a1 mod length LAST_NAMES)),
             (''email'', clean_email (FIRST_NAMES ! (a0 mod length FIRST_NAMES))
                           (LAST_NAMES ! (a1 mod length LAST_NAMES)) a2),
             (''phone'', clean_phone a3 a4 a5),
             (''date_of_birth'', clean_date (1970, 1, 1) 14600 a6),
             (''country'', COUNTRIES ! (a7 mod length COUNTRIES)),
             (''kyc_status'', KYC_STATUSES ! (a8 mod length KYC_STATUSES)),
             (''created_date'', clean_date TODAY 365 a9),
             (''last_updated'', strftime TODAY)], prepend xs r)"
  using assms
  by (simp add: variant_customer_body_def gbind_def greturn_def keep_if_random_above_def clean_draw_def)

lemma account_body_prepend:
  assumes "clean_draw P D0" "clean_draw P D1"
  shows "variant_account_body P customers i
           (prepend (D0 # a0 # D1 # a1 # a2 # a3 # a4 # a5 # a6 # xs) r)
         = pure_account_body customers i (prepend (a0 # a1 # a2 # a3 # a4 # a5 # a6 # xs) r)"
proof (cases "customers = []")
  case True
  then show ?thesis using assms
    by (simp add: variant_account_body_def pure_account_body_def gbind_def clean_draw_def)
next
  case False
  then show ?thesis using assms
    by (cases "getitem (customers ! (a0 mod length customers)) ''customer_id''")
       (simp_all add: variant_account_body_def pure_account_body_def gbind_def greturn_def
          lift_def clean_draw_def)
qed

lemma transaction_body_prepend:
  assumes "clean_draw P D0"
  shows "variant_transaction_body P accounts i
           (prepend (a0 # D0 # a1 # a2 # a3 # a4 # a5 # a6 # xs) r)
         = pure_transaction_body accounts i (prepend (a0 # a1 # a2 # a3 # a4 # a5 # a6 # xs) r)"
proof (cases "accounts = []")
  case True
  then show ?thesis
    by (simp add: variant_transaction_body_def pure_transaction_body_def gbind_def)
next
  case False
  then show ?thesis using assms
    by (cases "getitem (accounts ! (a0 mod length accounts)) ''account_id''";
        cases "getitem (accounts ! (a0 mod length accounts)) ''currency''")
       (simp_all add: variant_transaction_body_def pure_transaction_body_def gbind_def greturn_def
          lift_def clean_draw_def)
qed

lemma fx_sources_nonempty [simp]: "FX_SOURCES \<noteq> []"
  by (simp add: FX_SOURCES_def)

lemma fx_rate_body_prepend:
  assumes "clean_draw P D0"
  shows "variant_fx_rate_body P date cur rate n (prepend (a0 # D0 # a1 # xs) r)
         = pure_fx_rate_body date cur rate n (prepend (a0 # a1 # xs) r)"
  using assms
  by (simp add: variant_fx_rate_body_def pure_fx_rate_body_def gbind_def greturn_def Let_def
      clean_draw_def)

lemma pure_fx_rate_body_state:
  "pure_fx_rate_body date cur rate n (prepend [a0, a1] s)
     = keep_state s (pure_fx_rate_body date cur rate n (prepend [a0, a1] s'))"
  by (simp add: pure_fx_rate_body_def gbind_def greturn_def Let_def)

lemma shift_0 [simp]: "shift 0 r = r"
  by (simp add: shift_def)

lemma shift_shift [simp]: "shift a (shift b r) = shift (a + b) r"
  by (simp add: shift_def fun_eq_iff ac_simps)

lemma with_decisions_0 [simp]: "with_decisions pat a b 0 rest ds r = rest ds r"
  by (simp add: with_decisions_def)

lemma with_decisions_Suc:
  assumes "pat \<noteq> []"
  shows "with_decisions pat a b (Suc n) rest ds r
           = prepend (map (slot_draw a b ds r 0) pat)
               (with_decisions pat a b n rest (shift b ds) (shift a r))"
proof
  fix i
  let ?l = "length pat"
  have l: "0 < ?l" using assms by simp
  show "with_decisions pat a b (Suc n) rest ds r i
           = prepend (map (slot_draw a b ds r 0) pat)
               (with_decisions pat a b n rest (shift b ds) (shift a r)) i"
  proof (cases "i < ?l")
    case True
    then show ?thesis by (simp add: with_decisions_def prepend_def)
  next
    case False
    then have ge: "?l \<le> i" by simp
    have m: "(i - ?l) mod ?l = i mod ?l" using le_mod_geq[OF ge] by simp
    have d: "i div ?l = Suc ((i - ?l) div ?l)" using le_div_geq[OF l ge] .
    have s: "slot_draw a b (shift b ds) (shift a r) t x = slot_draw a b ds r (Suc t) x" for t x
      by (simp add: slot_draw_def shift_def ac_simps split: slot.splits)
    have c: "i - ?l < n * ?l \<longleftrightarrow> i < ?l + n * ?l" using ge by auto
    have e: "i - ?l - n * ?l = i - (?l + n * ?l)" by simp
    show ?thesis using False
      by (simp add: with_decisions_def prepend_def m d s c e ac_simps)
  qed
qed

lemma clean_decisions_shift: "clean_decisions P ds \<Longrightarrow> clean_decisions P (shift b ds)"
  by (simp add: clean_decisions_def shift_def)

lemma clean_decisionsD: "clean_decisions P ds \<Longrightarrow> clean_draw P (ds n)"
  by (simp add: clean_decisions_def)

lemma for_loop_with_decisions:
  assumes pat: "pat \<noteq> []"
    and R1: "\<And>i ds r s. clean_decisions P ds \<Longrightarrow>
               dbody i (prepend (map (slot_draw a b ds r 0) pat) s) = keep_state s (pbody i r)"
    and R2: "\<And>i r. pbody i r = keep_state (shift a r) (pbody i r)"
    and ds: "clean_decisions P ds"
  shows "for_loop i n dbody acc (with_decisions pat a b n rest ds r)
           = keep_state (rest (shift (b * n) ds) (shift (a * n) r)) (for_loop i n pbody acc r)"
  using ds
proof (induction n arbitrary: i acc ds r)
  case 0
  then show ?case by (simp add: greturn_def)
next
  case (Suc n)
  note w = with_decisions_Suc[OF pat, of a b n rest ds r]
  show ?case
  proof (cases "pbody i r")
    case (Inl e)
    then show ?thesis using R1[OF Suc.prems, of i r] by (simp add: gbind_def w)
  next
    case (Inr p)
    obtain x r1 where p: "p = (x, r1)" by (cases p)
    from R2[of i r] Inr p have r1: "r1 = shift a r" by simp
    from R1[OF Suc.prems, of i r] Inr p
    have d: "dbody i (with_decisions pat a b (Suc n) rest ds r)
               = Inr (x, with_decisions pat a b n rest (shift b ds) (shift a r))"
      by (simp add: w)
    have "b * n + b = b * Suc n" "a * n + a = a * Suc n" by simp_all
    then show ?thesis
      using Suc.IH[OF clean_decisions_shift[OF Suc.prems], where i = "Suc i" and acc = "acc @ [x]"
          and r = "shift a r"] Inr p r1 d
      by (simp add: gbind_def del: mult_Suc_right)
  qed
qed

lemma for_loop_state:
  assumes R2: "\<And>i r. pbody i r = keep_state (shift a r) (pbody i r)"
  shows "for_loop i n pbody acc r = keep_state (shift (a * n) r) (for_loop i n pbody acc r)"
proof (induction n arbitrary: i acc r)
  case 0
  then show ?case by (simp add: greturn_def)
next
  case (Suc n)
  show ?case
  proof (cases "pbody i r")
    case (Inl e)
    then show ?thesis by (simp add: gbind_def)
  next
    case (Inr p)
    obtain x r1 where p: "p = (x, r1)" by (cases p)
    from R2[of i r] Inr p have r1: "r1 = shift a r" by simp
    have "a * n + a = a * Suc n" by simp
    then show ?thesis
      using Suc.IH[of "Suc i" "acc @ [x]" "shift a r"] Inr p r1
      by (simp add: gbind_def del: mult_Suc_right)
  qed
qed

lemma prefix10: "r = prepend [r 0, r 1, r 2, r 3, r 4, r 5, r 6, r 7, r 8, r 9] (shift 10 r)"
  using prepend_take[of r 10]
  by (simp add: upt_rec[of _ "numeral _"] upt_rec[of _ "Suc _"] eval_nat_numeral)

lemma prefix7: "r = prepend [r 0, r 1, r 2, r 3, r 4, r 5, r 6] (shift 7 r)"
  using prepend_take[of r 7]
  by (simp add: upt_rec[of _ "numeral _"] upt_rec[of _ "Suc _"] eval_nat_numeral)

lemma prefix2: "r = prepend [r 0, r 1] (shift 2 r)"
  using prepend_take[of r 2]
  by (simp add: upt_rec[of _ "numeral _"] upt_rec[of _ "Suc _"] eval_nat_numeral)

lemma pattern_draws:
  "map (slot_draw 10 5 ds r 0) customer_pattern
     = [r 0, r 1, ds 0, ds 1, ds 2, ds 3, r 2, r 3, r 4, r 5, r 6, ds 4, r 7, r 8, r 9]"
  "map (slot_draw 7 2 ds r 0) account_pattern = [ds 0, r 0, ds 1, r 1, r 2, r 3, r 4, r 5, r 6]"
  "map (slot_draw 7 1 ds r 0) transaction_pattern = [r 0, ds 0, r 1, r 2, r 3, r 4, r 5, r 6]"
  "map (slot_draw 2 1 ds r 0) fx_pattern = [r 0, ds 0, r 1]"
  by (simp_all only: customer_pattern_def account_pattern_def transaction_pattern_def
      fx_pattern_def slot_draw_def list.map slot.case mult_0_right add_0)

lemma customer_step:
  "clean_decisions P ds \<Longrightarrow>
     variant_customer_body P i (prepend (map (slot_draw 10 5 ds r 0) customer_pattern) s)
       = keep_state s (pure_customer_body i r)"
  "pure_customer_body i r = keep_state (shift 10 r) (pure_customer_body i r)"
proof -
  show "pure_customer_body i r = keep_state (shift 10 r) (pure_customer_body i r)"
    by (subst (1 2) prefix10[of r]) (simp only: pure_customer_body_prepend keep_state_simps prepend_Nil)
  assume c: "clean_decisions P ds"
  note d = clean_decisionsD[OF c]
  show "variant_customer_body P i (prepend (map (slot_draw 10 5 ds r 0) customer_pattern) s)
       = keep_state s (pure_customer_body i r)"
    unfolding pattern_draws
    by (subst prefix10[of r])
       (simp only: variant_customer_body_prepend[OF d d d d d] pure_customer_body_prepend
          keep_state_simps prepend_Nil)
qed

lemma pure_account_body_state:
  "pure_account_body customers i (prepend [a0, a1, a2, a3, a4, a5, a6] s)
     = keep_state s (pure_account_body customers i (prepend [a0, a1, a2, a3, a4, a5, a6] s'))"
proof (cases "customers = []")
  case True
  then show ?thesis by (simp add: pure_account_body_def gbind_def)
next
  case False
  then show ?thesis
    by (cases "getitem (customers ! (a0 mod length customers)) ''customer_id''")
       (simp_all add: pure_account_body_def gbind_def greturn_def lift_def)
qed

lemma account_step:
  "clean_decisions P ds \<Longrightarrow>
     variant_account_body P customers i (prepend (map (slot_draw 7 2 ds r 0) account_pattern) s)
       = keep_state s (pure_account_body customers i r)"
  "pure_account_body customers i r = keep_state (shift 7 r) (pure_account_body customers i r)"
proof -
  show "pure_account_body customers i r = keep_state (shift 7 r) (pure_account_body customers i r)"
    by (subst (1 2) prefix7[of r]) (rule pure_account_body_state)
  assume c: "clean_decisions P ds"
  note d = clean_decisionsD[OF c]
  have "variant_account_body P customers i (prepend (map (slot_draw 7 2 ds r 0) account_pattern) s)
      = pure_account_body customers i (prepend [r 0, r 1, r 2, r 3, r 4, r 5, r 6] s)"
    unfolding pattern_draws by (rule account_body_prepend[OF d d])
  also have "\<dots> = keep_state s
      (pure_account_body customers i (prepend [r 0, r 1, r 2, r 3, r 4, r 5, r 6] (shift 7 r)))"
    by (rule pure_account_body_state)
  also have "\<dots> = keep_state s (pure_account_body customers i r)"
    by (subst (3) prefix7[of r]) simp
  finally show "variant_account_body P customers i (prepend (map (slot_draw 7 2 ds r 0) account_pattern) s)
       = keep_state s (pure_account_body customers i r)" .
qed

lemma pure_transaction_body_state:
  "pure_transaction_body accounts i (prepend [a0, a1, a2, a3, a4, a5, a6] s)
     = keep_state s (pure_transaction_body accounts i (prepend [a0, a1, a2, a3, a4, a5, a6] s'))"
proof (cases "accounts = []")
  case True
  then show ?thesis by (simp add: pure_transaction_body_def gbind_def)
next
  case False
  then show ?thesis
    by (cases "getitem (accounts ! (a0 mod length accounts)) ''account_id''";
        cases "getitem (accounts ! (a0 mod length accounts)) ''currency''")
       (simp_all add: pure_transaction_body_def gbind_def greturn_def lift_def)
qed

lemma transaction_step:
  "clean_decisions P ds \<Longrightarrow>
     variant_transaction_body P accounts i (prepend (map (slot_draw 7 1 ds r 0) transaction_pattern) s)
       = keep_state s (pure_transaction_body accounts i r)"
  "pure_transaction_body accounts i r = keep_state (shift 7 r) (pure_transaction_body accounts i r)"
proof -
  show "pure_transaction_body accounts i r = keep_state (shift 7 r) (pure_transaction_body accounts i r)"
    by (subst (1 2) prefix7[of r]) (rule pure_transaction_body_state)
  assume c: "clean_decisions P ds"
  note d = clean_decisionsD[OF c]
  have "variant_transaction_body P accounts i (prepend (map (slot_draw 7 1 ds r 0) transaction_pattern) s)
      = pure_transaction_body accounts i (prepend [r 0, r 1, r 2, r 3, r 4, r 5, r 6] s)"
    unfolding pattern_draws by (rule transaction_body_prepend[OF d])
  also have "\<dots> = keep_state s
      (pure_transaction_body accounts i (prepend [r 0, r 1, r 2, r 3, r 4, r 5, r 6] (shift 7 r)))"
    by (rule pure_transaction_body_state)
  also have "\<dots> = keep_state s (pure_transaction_body accounts i r)"
    by (subst (3) prefix7[of r]) simp
  finally show "variant_transaction_body P accounts i
      (prepend (map (slot_draw 7 1 ds r 0) transaction_pattern) s)
       = keep_state s (pure_transaction_body accounts i r)" .
qed

lemma fx_step:
  "clean_decisions P ds \<Longrightarrow>
     variant_fx_rate_body P date cur rate n (prepend (map (slot_draw 2 1 ds r 0) fx_pattern) s)
       = keep_state s (pure_fx_rate_body date cur rate n r)"
  "pure_fx_rate_body date cur rate n r = keep_state (shift 2 r) (pure_fx_rate_body date cur rate n r)"
proof -
  show "pure_fx_rate_body date cur rate n r = keep_state (shift 2 r) (pure_fx_rate_body date cur rate n r)"
    by (subst (1 2) prefix2[of r]) (rule pure_fx_rate_body_state)
  assume c: "clean_decisions P ds"
  note d = clean_decisionsD[OF c]
  have "variant_fx_rate_body P date cur rate n (prepend (map (slot_draw 2 1 ds r 0) fx_pattern) s)
      = pure_fx_rate_body date cur rate n (prepend [r 0, r 1] s)"
    unfolding pattern_draws by (rule fx_rate_body_prepend[OF d])
  also have "\<dots> = keep_state s (pure_fx_rate_body date cur rate n (prepend [r 0, r 1] (shift 2 r)))"
    by (rule pure_fx_rate_body_state)
  also have "\<dots> = keep_state s (pure_fx_rate_body date cur rate n r)"
    by (subst (3) prefix2[of r]) simp
  finally show "variant_fx_rate_body P date cur rate n (prepend (map (slot_draw 2 1 ds r 0) fx_pattern) s)
       = keep_state s (pure_fx_rate_body date cur rate n r)" .
qed

lemma fx_pattern_nonempty [simp]: "fx_pattern \<noteq> []" "length fx_pattern = 3"
  by (simp_all add: fx_pattern_def)

lemma fx_currencies_with_decisions:
  assumes "clean_decisions P ds"
  shows "variant_fx_currencies P date cs rates (with_decisions fx_pattern 2 1 (length cs + m) rest ds r)
           = keep_state (with_decisions fx_pattern 2 1 m rest (shift (length cs) ds) (shift (2 * length cs) r))
               (pure_fx_currencies date cs rates r)"
  using assms
proof (induction cs arbitrary: rates ds r)
  case Nil
  then show ?case by (simp add: greturn_def)
next
  case (Cons c cs)
  obtain cur rate where c: "c = (cur, rate)" by (cases c)
  note w = with_decisions_Suc[OF fx_pattern_nonempty(1), of 2 1 "length cs + m" rest ds r]
  show ?case
  proof (cases "pure_fx_rate_body date cur rate (length rates) r")
    case (Inl e)
    then show ?thesis using fx_step(1)[OF Cons.prems, of date cur rate "length rates" r]
      by (simp add: c gbind_def w del: One_nat_def)
  next
    case (Inr p)
    obtain x r1 where p: "p = (x, r1)" by (cases p)
    from fx_step(2)[of date cur rate "length rates" r] Inr p have r1: "r1 = shift 2 r" by simp
    from fx_step(1)[OF Cons.prems, of date cur rate "length rates" r] Inr p
    have d: "variant_fx_rate_body P date cur rate (length rates)
               (with_decisions fx_pattern 2 1 (Suc (length cs + m)) rest ds r)
             = Inr (x, with_decisions fx_pattern 2 1 (length cs + m) rest (shift 1 ds) (shift 2 r))"
      by (simp add: w del: One_nat_def)
    have e: "shift (length cs + 1) ds = shift (Suc (length cs)) ds" by simp
    have "2 * length cs + 2 = 2 * Suc (length cs)" by simp
    then show ?thesis
      using Cons.IH[OF clean_decisions_shift[OF Cons.prems, of 1], where rates = "rates @ [x]"
          and r = "shift 2 r"] Inr p r1 d
      by (simp add: c gbind_def e del: mult_Suc_right One_nat_def)
  qed
qed

lemma pure_fx_currencies_state:
  "pure_fx_currencies date cs rates r
     = keep_state (shift (2 * length cs) r) (pure_fx_currencies date cs rates r)"
proof (induction cs arbitrary: rates r)
  case Nil
  then show ?case by (simp add: greturn_def)
next
  case (Cons c cs)
  obtain cur rate where c: "c = (cur, rate)" by (cases c)
  show ?case
  proof (cases "pure_fx_rate_body date cur rate (length rates) r")
    case (Inl e)
    then show ?thesis by (simp add: c gbind_def)
  next
    case (Inr p)
    obtain x r1 where p: "p = (x, r1)" by (cases p)
    from fx_step(2)[of date cur rate "length rates" r] Inr p have r1: "r1 = shift 2 r" by simp
    have "2 * length cs + 2 = 2 * Suc (length cs)" by simp
    then show ?thesis
      using Cons.IH[of "rates @ [x]" "shift 2 r"] Inr p r1
      by (simp add: c gbind_def del: mult_Suc_right)
  qed
qed

lemma fx_days_with_decisions:
  assumes "clean_decisions P ds"
  shows "variant_fx_days P day n rates (with_decisions fx_pattern 2 1 (7 * n) rest ds r)
           = keep_state (rest (shift (7 * n) ds) (shift (14 * n) r)) (pure_fx_days day n rates r)"
  using assms
proof (induction n arbitrary: day rates ds r)
  case 0
  then show ?case by (simp add: greturn_def)
next
  case (Suc n)
  have n: "7 * Suc n = length BASE_RATES + 7 * n" by simp
  note c = fx_currencies_with_decisions[OF Suc.prems, where cs = BASE_RATES and m = "7 * n"
      and rest = rest and r = r, folded n]
  show ?case
  proof (cases "date_plus_days TODAY (- int day)")
    case (Inl e)
    then show ?thesis by (simp add: gbind_def lift_def)
  next
    case (Inr date)
    show ?thesis
    proof (cases "pure_fx_currencies date BASE_RATES rates r")
      case (Inl e)
      then show ?thesis using c[of date rates] Inr by (simp add: gbind_def lift_def)
    next
      case r: (Inr p)
      obtain rs r1 where p: "p = (rs, r1)" by (cases p)
      from pure_fx_currencies_state[of date BASE_RATES rates r] r p have r1: "r1 = shift 14 r"
        by simp
      have e: "shift (7 * n + 7) ds = shift (7 * Suc n) ds" by (simp add: ac_simps)
      have "14 * n + 14 = 14 * Suc n" by simp
      then show ?thesis
        using c[of date rates] Inr r p r1
          Suc.IH[OF clean_decisions_shift[OF Suc.prems, of 7], where day = "Suc day" and rates = rs
            and r = "shift 14 r"]
        by (simp add: gbind_def lift_def e del: mult_Suc_right One_nat_def)
    qed
  qed
qed

lemma pattern_nonempty [simp]:
  "customer_pattern \<noteq> []" "account_pattern \<noteq> []" "transaction_pattern \<noteq> []"
  by (simp_all add: customer_pattern_def account_pattern_def transaction_pattern_def)

lemma customers_with_decisions:
  assumes "clean_decisions P ds"
  shows "variant_generate_customers P count (with_decisions customer_pattern 10 5 (nat count) rest ds r)
           = keep_state (rest (shift (5 * nat count) ds) (shift (10 * nat count) r))
               (pure_generate_customers count r)"
    and "pure_generate_customers count r
           = keep_state (shift (10 * nat count) r) (pure_generate_customers count r)"
proof -
  show "variant_generate_customers P count (with_decisions customer_pattern 10 5 (nat count) rest ds r)
           = keep_state (rest (shift (5 * nat count) ds) (shift (10 * nat count) r))
               (pure_generate_customers count r)"
    unfolding variant_generate_customers_def pure_generate_customers_def for_range_def
    by (rule for_loop_with_decisions[where P = P, OF pattern_nonempty(1) customer_step assms])
  show "pure_generate_customers count r
           = keep_state (shift (10 * nat count) r) (pure_generate_customers count r)"
    unfolding pure_generate_customers_def for_range_def
    by (rule for_loop_state[where pbody = pure_customer_body and a = 10, OF customer_step(2)])
qed

lemma accounts_with_decisions:
  assumes "clean_decisions P ds"
  shows "variant_generate_accounts P customers R
           (with_decisions account_pattern 7 2 (account_iterations customers R) rest ds r)
           = keep_state (rest (shift (2 * account_iterations customers R) ds)
                              (shift (7 * account_iterations customers R) r))
               (pure_generate_accounts customers R r)"
    and "pure_generate_accounts customers R r
           = keep_state (shift (7 * account_iterations customers R) r)
               (pure_generate_accounts customers R r)"
proof -
  show "variant_generate_accounts P customers R
           (with_decisions account_pattern 7 2 (account_iterations customers R) rest ds r)
           = keep_state (rest (shift (2 * account_iterations customers R) ds)
                              (shift (7 * account_iterations customers R) r))
               (pure_generate_accounts customers R r)"
  proof (cases "int_of_float (fmul (of_nat (length customers)) R)")
    case (Inl e)
    then show ?thesis
      by (simp add: variant_generate_accounts_def pure_generate_accounts_def gbind_def lift_def)
  next
    case (Inr c)
    then have n: "account_iterations customers R = nat c" by (simp add: account_iterations_def)
    show ?thesis
      unfolding n using Inr
      for_loop_with_decisions[where P = P and dbody = "variant_account_body P customers"
        and pbody = "pure_account_body customers", OF pattern_nonempty(2) account_step assms,
        of 0 "nat c" "[]" rest r]
      by (simp add: variant_generate_accounts_def pure_generate_accounts_def gbind_def lift_def
          for_range_def)
  qed
  show "pure_generate_accounts customers R r
           = keep_state (shift (7 * account_iterations customers R) r)
               (pure_generate_accounts customers R r)"
  proof (cases "int_of_float (fmul (of_nat (length customers)) R)")
    case (Inl e)
    then show ?thesis
      by (simp add: pure_generate_accounts_def gbind_def lift_def)
  next
    case (Inr c)
    then have n: "account_iterations customers R = nat c" by (simp add: account_iterations_def)
    show ?thesis
      unfolding n using Inr
      for_loop_state[where pbody = "pure_account_body customers", OF account_step(2),
        of 0 "nat c" "[]" r]
      by (simp add: pure_generate_accounts_def gbind_def lift_def for_range_def)
  qed
qed

lemma transactions_with_decisions:
  assumes "clean_decisions P ds"
  shows "variant_generate_transactions P accounts tpa
           (with_decisions transaction_pattern 7 1 (nat (int (length accounts) * tpa)) rest ds r)
           = keep_state (rest (shift (1 * nat (int (length accounts) * tpa)) ds)
                              (shift (7 * nat (int (length accounts) * tpa)) r))
               (pure_generate_transactions accounts tpa r)"
    and "pure_generate_transactions accounts tpa r
           = keep_state (shift (7 * nat (int (length accounts) * tpa)) r)
               (pure_generate_transactions accounts tpa r)"
proof -
  show "variant_generate_transactions P accounts tpa
           (with_decisions transaction_pattern 7 1 (nat (int (length accounts) * tpa)) rest ds r)
           = keep_state (rest (shift (1 * nat (int (length accounts) * tpa)) ds)
                              (shift (7 * nat (int (length accounts) * tpa)) r))
               (pure_generate_transactions accounts tpa r)"
    unfolding variant_generate_transactions_def pure_generate_transactions_def for_range_def
    by (rule for_loop_with_decisions[where P = P, OF pattern_nonempty(3) transaction_step assms])
  show "pure_generate_transactions accounts tpa r
           = keep_state (shift (7 * nat (int (length accounts) * tpa)) r)
               (pure_generate_transactions accounts tpa r)"
    unfolding pure_generate_transactions_def for_range_def
    by (rule for_loop_state[where pbody = "pure_transaction_body accounts" and a = 7,
          OF transaction_step(2)])
qed

lemma fx_rates_with_decisions:
  assumes "clean_decisions P ds"
  shows "variant_generate_fx_rates P days (with_decisions fx_pattern 2 1 (7 * nat days) rest ds r)
           = keep_state (rest (shift (7 * nat days) ds) (shift (14 * nat days) r))
               (pure_generate_fx_rates days r)"
  unfolding variant_generate_fx_rates_def pure_generate_fx_rates_def
  by (rule fx_days_with_decisions[OF assms])

lemma walk_cong: "(\<And>i. i < k \<Longrightarrow> s i = r i) \<Longrightarrow> walk b s k = walk b r k"
  by (induction k) simp_all

lemma balance_rows_cong:
  assumes "\<And>i. i < length accounts * days \<Longrightarrow> s i = r i"
  shows "balance_rows accounts idx days s = balance_rows accounts idx days r"
  using assms
proof (induction accounts arbitrary: idx s r)
  case Nil
  then show ?case by simp
next
  case (Cons a rest)
  have w: "walk (account_base a) s k = walk (account_base a) r k" if "k \<le> days" for k
    by (rule walk_cong) (use that Cons.prems in simp)
  have "balance_rows rest (idx + days) days (\<lambda>i. s (i + days))
          = balance_rows rest (idx + days) days (\<lambda>i. r (i + days))"
    by (rule Cons.IH) (use Cons.prems in simp)
  moreover have "map (\<lambda>k. balance_row a (idx + k) k (walk (account_base a) s k)
                        (walk (account_base a) s (Suc k))) [0..<days]
      = map (\<lambda>k. balance_row a (idx + k) k (walk (account_base a) r k)
                        (walk (account_base a) r (Suc k))) [0..<days]"
    using w by (auto simp del: walk.simps)
  ultimately show ?case by (simp del: walk.simps)
qed

lemma daily_balances_with_prefix:
  assumes "list_all valid_account accounts" "days \<le> 739638"
  shows "generate_daily_balances accounts days
           (with_decisions [Clean 0] 1 0 (length accounts * nat days) rest ds r)
         = keep_state (rest ds (shift (length accounts * nat days) r))
             (generate_daily_balances accounts days r)"
proof -
  let ?n = "length accounts * nat days"
  let ?s = "with_decisions [Clean 0] 1 0 ?n rest ds r"
  have t: "total (generate_daily_balances accounts days)"
    by (rule total_generate_daily_balances[OF assms])
  from totalD[OF t] obtain b1 r1 where g1: "generate_daily_balances accounts days ?s = Inr (b1, r1)"
    by blast
  from totalD[OF t] obtain b2 r2 where g2: "generate_daily_balances accounts days r = Inr (b2, r2)"
    by blast
  note i1 = generate_daily_balances_Inr[OF disjI1[OF g1]]
  note i2 = generate_daily_balances_Inr[OF disjI1[OF g2]]
  have p: "?s i = r i" if "i < ?n" for i
    using that by (simp add: with_decisions_def slot_draw_def)
  have "b1 = b2" unfolding i1(1) i2(1) by (rule balance_rows_cong) (rule p)
  moreover have "r1 = rest ds (shift ?n r)"
    unfolding i1(2) by (simp add: with_decisions_def fun_eq_iff)
  ultimately show ?thesis unfolding g1 g2 by simp
qed

lemma account_iterations_main:
  "length customers = 1000 \<Longrightarrow> account_iterations customers (3 / 2) = 1500"
  using fmul_three_halves[of 1000]
  by (simp add: account_iterations_def int_of_float_def)

lemma length_pure_generate_customers:
  "pure_generate_customers count r = Inr (customers, r1) \<Longrightarrow> length customers = nat count"
  by (auto simp: pure_generate_customers_def dest!: for_range_Inr)

lemma length_pure_generate_accounts:
  "pure_generate_accounts customers R r = Inr (accounts, r1)
     \<Longrightarrow> length accounts = account_iterations customers R"
  by (auto simp: pure_generate_accounts_def account_iterations_def gbind_Inr_iff dest!: for_range_Inr)

lemma main_with_decisions:
  assumes "clean_decisions P ds"
  shows "variant_main P dir fs (main_source ds r)
           = entry_point pure_generate_customers pure_generate_accounts pure_generate_transactions
               pure_generate_daily_balances pure_generate_fx_rates dir fs r"
proof -
  define W5 where "W5 = with_decisions fx_pattern 2 1 630 (\<lambda>ds r. r)"
  define W4 where "W4 = with_decisions [Clean 0] 1 0 45000 W5"
  define W3 where "W3 = with_decisions transaction_pattern 7 1 15000 W4"
  define W2 where "W2 = with_decisions account_pattern 7 2 1500 W3"
  define ds1 where "ds1 = shift 5000 ds"
  define ds2 where "ds2 = shift 3000 ds1"
  define ds3 where "ds3 = shift 15000 ds2"
  have cl: "clean_decisions P ds1" "clean_decisions P ds2" "clean_decisions P ds3"
    unfolding ds1_def ds2_def ds3_def by (intro clean_decisions_shift assms)+
  have pb: "pure_generate_daily_balances = generate_daily_balances"
    by (intro ext) (simp add: generate_daily_balances_def pure_generate_daily_balances_def)
  have c1: "variant_generate_customers P 1000 (main_source ds r)
              = keep_state (W2 ds1 (shift 10000 r)) (pure_generate_customers 1000 r)"
    using customers_with_decisions(1)[OF assms, of 1000 W2 r]
    by (simp add: main_source_def W2_def W3_def W4_def W5_def ds1_def)
  show ?thesis
  proof (cases "pure_generate_customers 1000 r")
    case (Inl e)
    then show ?thesis using c1 by (simp add: variant_main_def entry_point_def)
  next
    case (Inr p1)
    obtain customers r1 where p1: "p1 = (customers, r1)" by (cases p1)
    from customers_with_decisions(2)[OF assms, of 1000 r] Inr p1 have r1: "r1 = shift 10000 r"
      by simp
    have g1: "pure_generate_customers 1000 r = Inr (customers, r1)" using Inr p1 by simp
    have v1: "variant_generate_customers P 1000 (main_source ds r) = Inr (customers, W2 ds1 r1)"
      using c1 g1 r1 by simp
    have lc: "length customers = 1000" using length_pure_generate_customers[OF g1] by simp
    note it = account_iterations_main[OF lc]
    have c2: "variant_generate_accounts P customers (3 / 2) (W2 ds1 r1)
                = keep_state (W3 ds2 (shift 10500 r1)) (pure_generate_accounts customers (3 / 2) r1)"
      using accounts_with_decisions(1)[OF cl(1), of customers "3 / 2" W3 r1]
      unfolding it by (simp add: W2_def ds2_def)
    show ?thesis
    proof (cases "pure_generate_accounts customers (3 / 2) r1")
      case (Inl e)
      then show ?thesis using c2 g1 v1 by (simp add: variant_main_def entry_point_def)
    next
      case (Inr p2)
      obtain accounts r2 where p2: "p2 = (accounts, r2)" by (cases p2)
      have g2: "pure_generate_accounts customers (3 / 2) r1 = Inr (accounts, r2)"
        using Inr p2 by simp
      from accounts_with_decisions(2)[OF assms, of customers "3 / 2" r1] g2
      have r2: "r2 = shift 10500 r1" unfolding it by simp
      have v2: "variant_generate_accounts P customers (3 / 2) (W2 ds1 r1) = Inr (accounts, W3 ds2 r2)"
        using c2 g2 r2 by simp
      have la: "length accounts = 1500" using length_pure_generate_accounts[OF g2] it by simp
      have va: "list_all valid_account accounts" using g2 generate_accounts_valid by blast
      have c3: "variant_generate_transactions P accounts 10 (W3 ds2 r2)
                  = keep_state (W4 ds3 (shift 105000 r2)) (pure_generate_transactions accounts 10 r2)"
        using transactions_with_decisions(1)[OF cl(2), of accounts 10 W4 r2]
        by (simp add: W3_def ds3_def la)
      show ?thesis
      proof (cases "pure_generate_transactions accounts 10 r2")
        case (Inl e)
        then show ?thesis using c3 g1 v1 g2 v2 by (simp add: variant_main_def entry_point_def)
      next
        case (Inr p3)
        obtain transactions r3 where p3: "p3 = (transactions, r3)" by (cases p3)
        have g3: "pure_generate_transactions accounts 10 r2 = Inr (transactions, r3)"
          using Inr p3 by simp
        from transactions_with_decisions(2)[OF assms, of accounts 10 r2] g3
        have r3: "r3 = shift 105000 r2" by (simp add: la)
        have v3: "variant_generate_transactions P accounts 10 (W3 ds2 r2)
                    = Inr (transactions, W4 ds3 r3)"
          using c3 g3 r3 by simp
        have c4: "generate_daily_balances accounts 30 (W4 ds3 r3)
                    = keep_state (W5 ds3 (shift 45000 r3)) (generate_daily_balances accounts 30 r3)"
          using daily_balances_with_prefix[OF va, of 30 W5 ds3 r3]
          by (simp add: W4_def la)
        show ?thesis
        proof (cases "generate_daily_balances accounts 30 r3")
          case (Inl e)
          then show ?thesis using c4 g1 v1 g2 v2 g3 v3
            by (simp add: variant_main_def entry_point_def pb)
        next
          case (Inr p4)
          obtain bals r4 where p4: "p4 = (bals, r4)" by (cases p4)
          have g4: "generate_daily_balances accounts 30 r3 = Inr (bals, r4)" using Inr p4 by simp
          from generate_daily_balances_Inr(2)[OF disjI1[OF g4]]
          have r4: "r4 = shift 45000 r3" by (simp add: la shift_def)
          have v4: "generate_daily_balances accounts 30 (W4 ds3 r3) = Inr (bals, W5 ds3 r4)"
            using c4 g4 r4 by simp
          have c5: "variant_generate_fx_rates P 90 (W5 ds3 r4)
                      = keep_state (shift 1260 r4) (pure_generate_fx_rates 90 r4)"
            using fx_rates_with_decisions[OF cl(3), of 90 "\<lambda>ds r. r" r4]
            by (simp add: W5_def)
          show ?thesis
          proof (cases "pure_generate_fx_rates 90 r4")
            case (Inl e)
            then show ?thesis using c5 g1 v1 g2 v2 g3 v3 g4 v4
              by (simp add: variant_main_def entry_point_def pb)
          next
            case (Inr p5)
            obtain rates r5 where p5: "p5 = (rates, r5)" by (cases p5)
            then show ?thesis using Inr c5 g1 v1 g2 v2 g3 v3 g4 v4
              by (simp add: variant_main_def entry_point_def pb)
          qed
        qed
      qed
    qed
  qed
qed

lemma clean_draw_zero: "clean_draw zero_probs D \<longleftrightarrow> 0 < random_of_draw D"
  by (auto simp: clean_draw_def zero_probs_def)

lemma odd_draw_positive: "0 < random_of_draw (2 * n + 1)"
proof -
  have "\<not> (2 :: nat) ^ 53 dvd 2 * n + 1"
  proof
    assume "(2 :: nat) ^ 53 dvd 2 * n + 1"
    moreover have "(2 :: nat) dvd 2 ^ 53" by simp
    ultimately have "(2 :: nat) dvd 2 * n + 1" by (rule dvd_trans[rotated])
    then show False by simp
  qed
  then have "(2 * n + 1) mod 2 ^ 53 \<noteq> 0" by (simp add: dvd_eq_mod_eq_0)
  then show ?thesis by (simp add: random_of_draw_def)
qed

lemma clean_decisions_examples:
  "clean_decisions zero_probs (\<lambda>n. 2 * n + 1)" "clean_decisions source_probs (const_source (2 ^ 52))"
proof -
  show "clean_decisions zero_probs (\<lambda>n. 2 * n + 1)"
    unfolding clean_decisions_def clean_draw_zero using odd_draw_positive by blast
  show "clean_decisions source_probs (const_source (2 ^ 52))"
    by (simp add: clean_decisions_def clean_draw_def source_probs_def const_source_def
        random_of_draw_values)
qed

text \<open>
  C5, the failing case. On one and the same random source the clean script and the defect
  script with every probability at zero return different customers: the defect script makes
  a draw for each of its defect decisions also when the decision cannot fire, so the draws
  that follow reach other fields. On the source 0, 1, 2, ... the first customer's phone is
  made from the draws 7, 8, 9 in the defect script and from the draws 3, 4, 5 in the clean
  one.
\<close>

theorem variant_equivalence_counterexample:
  "\<exists>cd cp rd rp.
     variant_generate_customers zero_probs 1 counting_source = Inr (cd, rd) \<and>
     pure_generate_customers 1 counting_source = Inr (cp, rp) \<and>
     getitem (cd ! 0) ''phone'' = Inr ''+1-207-208-1009'' \<and>
     getitem (cp ! 0) ''phone'' = Inr ''+1-203-204-1005''"
proof -
  have z: "random_of_draw 2 \<noteq> 0" "0 < random_of_draw 3" "0 < random_of_draw 4"
    "0 < random_of_draw 5" "0 < random_of_draw 11" "\<not> random_of_draw 2 < 0"
    by (simp_all add: random_of_draw_def)
  have v: "\<exists>x s. variant_customer_body zero_probs 0 counting_source = Inr (x, s) \<and>
             getitem x ''phone'' = Inr (clean_phone 7 8 9)"
    by (subst counting_source_prefix)
       (simp add: variant_customer_body_def gbind_def greturn_def keep_if_random_above_def
          zero_probs_def z getitem_def)
  have p: "\<exists>x s. pure_customer_body 0 counting_source = Inr (x, s) \<and>
             getitem x ''phone'' = Inr (clean_phone 3 4 5)"
    by (subst counting_source_prefix)
       (simp add: pure_customer_body_prepend getitem_def)
  from v p show ?thesis
    by (auto simp: variant_generate_customers_def pure_generate_customers_def for_range_one
        gbind_def greturn_def clean_phone_examples)
qed

text \<open>
  C5, as amended. The clean script's field generators are the defect script's field
  generators called without \<^verbatim>\<open>add_issue\<close>, and \<^verbatim>\<open>generate_daily_balances\<close> is the same
  function in both scripts. The clean script's customer, account, transaction and FX-rate
  generators return, from a random source \<open>r\<close>, what the defect script's generators with
  given probabilities (zero, or the ones of the source) return from the source that makes
  the draws of \<open>r\<close> in the same order and takes the draw of each defect decision from a
  sequence \<open>ds\<close> of its own, when no decision fires at any draw of \<open>ds\<close> (at probability zero:
  when every draw of \<open>ds\<close> gives \<^verbatim>\<open>random() > 0\<close>); the record collections are identical and
  so are the errors, and the clean generators take 10, 7, 7 and 2 draws for each record.
  With the source's probabilities the parametrised generators are the defect script's own.
  The two entry points are one function of the five generators and of the output
  directory, and the clean entry point leaves from the draws \<open>r\<close> the file system that the
  defect entry point with such probabilities, writing to the clean directory, leaves from
  the draws of \<open>r\<close> with the decision draws \<open>ds\<close> put in.
\<close>

theorem clean_variant_up_to_decisions:
  assumes "clean_decisions P ds"
  shows "variant_generate_customers P count (with_decisions customer_pattern 10 5 (nat count) rest ds r)
           = keep_state (rest (shift (5 * nat count) ds) (shift (10 * nat count) r))
               (pure_generate_customers count r) \<and>
         pure_generate_customers count r
           = keep_state (shift (10 * nat count) r) (pure_generate_customers count r) \<and>
         variant_generate_accounts P customers R
             (with_decisions account_pattern 7 2 (account_iterations customers R) rest ds r)
           = keep_state (rest (shift (2 * account_iterations customers R) ds)
                              (shift (7 * account_iterations customers R) r))
               (pure_generate_accounts customers R r) \<and>
         pure_generate_accounts customers R r
           = keep_state (shift (7 * account_iterations customers R) r)
               (pure_generate_accounts customers R r) \<and>
         variant_generate_transactions P accounts tpa
             (with_decisions transaction_pattern 7 1 (nat (int (length accounts) * tpa)) rest ds r)
           = keep_state (rest (shift (1 * nat (int (length accounts) * tpa)) ds)
                              (shift (7 * nat (int (length accounts) * tpa)) r))
               (pure_generate_transactions accounts tpa r) \<and>
         pure_generate_transactions accounts tpa r
           = keep_state (shift (7 * nat (int (length accounts) * tpa)) r)
               (pure_generate_transactions accounts tpa r) \<and>
         variant_generate_fx_rates P days (with_decisions fx_pattern 2 1 (7 * nat days) rest ds r)
           = keep_state (rest (shift (7 * nat days) ds) (shift (14 * nat days) r))
               (pure_generate_fx_rates days r) \<and>
         generate_email f l False = pure_generate_email f l \<and>
         generate_phone False = pure_generate_phone \<and>
         generate_date b d False = pure_generate_date b d \<and>
         generate_daily_balances = pure_generate_daily_balances \<and>
         variant_generate_customers source_probs = generate_customers \<and>
         variant_generate_accounts source_probs = generate_accounts \<and>
         variant_generate_transactions source_probs = generate_transactions \<and>
         variant_generate_fx_rates source_probs = generate_fx_rates \<and>
         main = variant_main source_probs OUTPUT_DIR \<and>
         main = entry_point generate_customers generate_accounts generate_transactions
                  generate_daily_balances generate_fx_rates OUTPUT_DIR \<and>
         pure_main = entry_point pure_generate_customers pure_generate_accounts
                  pure_generate_transactions pure_generate_daily_balances pure_generate_fx_rates
                  pure_OUTPUT_DIR \<and>
         pure_main fs r = variant_main P pure_OUTPUT_DIR fs (main_source ds r) \<and>
         (clean_decisions zero_probs ds \<longleftrightarrow> (\<forall>n. 0 < random_of_draw (ds n)))"
proof -
  have a: "generate_daily_balances = pure_generate_daily_balances"
    by (intro ext) (simp add: generate_daily_balances_def pure_generate_daily_balances_def)
  have m: "pure_main fs r = variant_main P pure_OUTPUT_DIR fs (main_source ds r)"
    by (simp only: main_with_decisions[OF assms] entry_points(2))
  have z: "clean_decisions zero_probs ds \<longleftrightarrow> (\<forall>n. 0 < random_of_draw (ds n))"
    by (simp add: clean_decisions_def clean_draw_zero)
  note facts = customers_with_decisions[OF assms] accounts_with_decisions[OF assms]
    transactions_with_decisions[OF assms] fx_rates_with_decisions[OF assms]
    field_generators_equal variant_source entry_points a m z
  show ?thesis by (intro conjI) (rule facts)+
qed

theorem clean_variant_up_to_decisions_witness:
  "clean_decisions zero_probs (\<lambda>n. 2 * n + 1) \<and>
   variant_generate_customers zero_probs 3
       (with_decisions customer_pattern 10 5 3 (\<lambda>ds r. r) (\<lambda>n. 2 * n + 1) counting_source)
     = keep_state (shift 30 counting_source) (pure_generate_customers 3 counting_source) \<and>
   (\<exists>cs r1. pure_generate_customers 3 counting_source = Inr (cs, r1) \<and> length cs = 3) \<and>
   pure_main Map.empty counting_source
     = variant_main zero_probs pure_OUTPUT_DIR Map.empty (main_source (\<lambda>n. 2 * n + 1) counting_source) \<and>
   clean_decisions source_probs (const_source (2 ^ 52)) \<and>
   pure_main Map.empty counting_source
     = variant_main source_probs pure_OUTPUT_DIR Map.empty
         (main_source (const_source (2 ^ 52)) counting_source)"
proof -
  obtain cs r1 where p: "pure_generate_customers 3 counting_source = Inr (cs, r1)"
    using totalD[OF total_pure_generate_customers] by blast
  then have "length cs = 3"
    using for_range_Inr[OF p[unfolded pure_generate_customers_def]] by simp
  with p clean_decisions_examples
    clean_variant_up_to_decisions[OF clean_decisions_examples(1), of 3 "\<lambda>ds r. r" counting_source]
    clean_variant_up_to_decisions[OF clean_decisions_examples(2), where r = counting_source]
  show ?thesis by simp
qed

section \<open>The records of the clean script are well formed\<close>










lemma field_is_Cons [simp]:
  "field_is P ((k', v) # d) k = (if k = k' then P v else field_is P d k)"
  by (simp add: field_is_def getitem_def)

lemma field_is_Nil [simp]: "\<not> field_is P [] k"
  by (simp add: field_is_def getitem_def)

lemma getitem_Cons [simp]:
  "getitem ((k', v) # d) k = (if k = k' then Inr v else getitem d k)"
  by (simp add: getitem_def)






















end
